theory Spec2Isabelle
  imports Main "HOL-Library.Word"
begin

section \<open>C strings, character arrays and caller memory\<close>

text \<open>
  A \<^verbatim>\<open>char\<close> array is a list of characters; the C string it holds is the part before
  the first NUL (the end of the list stands for a terminator too, so that every list is
  a readable argument). Memory reached through a caller's \<^verbatim>\<open>char*\<close> is a function from
  the byte offset to the byte, so that a write at any offset is visible.
\<close>

definition NUL :: char where
  "NUL = CHR 0x00"

definition cstr :: "char list \<Rightarrow> char list" where
  "cstr xs = takeWhile (\<lambda>c. c \<noteq> NUL) xs"

definition strlen :: "char list \<Rightarrow> nat" where
  "strlen xs = length (cstr xs)"

text \<open>\<^verbatim>\<open>strcmp\<close>: bytes are compared as unsigned values up to the first difference or NUL.\<close>

fun strcmp :: "char list \<Rightarrow> char list \<Rightarrow> int" where
  "strcmp [] [] = 0"
| "strcmp [] (b # bs) = (if b = NUL then 0 else - int (of_char b))"
| "strcmp (a # as) [] = (if a = NUL then 0 else int (of_char a))"
| "strcmp (a # as) (b # bs) =
     (if a = b then (if a = NUL then 0 else strcmp as bs)
      else int (of_char a) - int (of_char b))"

text \<open>
  \<^verbatim>\<open>strncpy(dst, src, n)\<close> on an array \<open>dst\<close> of at least \<open>n\<close> bytes: exactly \<open>n\<close> bytes
  are written, the string of \<open>src\<close> cut at \<open>n\<close> and padded with NUL.
\<close>

definition strncpy :: "char list \<Rightarrow> char list \<Rightarrow> nat \<Rightarrow> char list" where
  "strncpy dst src n = take n (cstr src @ replicate n NUL) @ drop n dst"

type_synonym mem = "nat \<Rightarrow> char"

definition store :: "mem \<Rightarrow> nat \<Rightarrow> char list \<Rightarrow> mem" where
  "store m off bytes =
     (\<lambda>i. if off \<le> i \<and> i < off + length bytes then bytes ! (i - off) else m i)"

text \<open>\<^verbatim>\<open>strncpy\<close> and \<^verbatim>\<open>strcpy\<close> into caller memory, at a byte offset.\<close>

definition strncpy_mem :: "mem \<Rightarrow> nat \<Rightarrow> char list \<Rightarrow> nat \<Rightarrow> mem" where
  "strncpy_mem m off src n = store m off (take n (cstr src @ replicate n NUL))"

definition strcpy_mem :: "mem \<Rightarrow> nat \<Rightarrow> char list \<Rightarrow> mem" where
  "strcpy_mem m off src = store m off (cstr src @ [NUL])"

section \<open>Data model (privarion\_hook.h)\<close>

datatype PHResult =
    PH_SUCCESS
  | PH_ERROR_INVALID_PARAM
  | PH_ERROR_FUNCTION_NOT_FOUND
  | PH_ERROR_ALREADY_HOOKED
  | PH_ERROR_NOT_HOOKED
  | PH_ERROR_MEMORY_ERROR
  | PH_ERROR_PERMISSION_DENIED
  | PH_ERROR_UNSUPPORTED_PLATFORM

text \<open>Function pointers are addresses; \<open>0\<close> is the null pointer.\<close>

type_synonym fptr = nat

text \<open>
  The linked list of entries is a list, head first; \<^verbatim>\<open>next\<close> is the tail. The fields
  \<^verbatim>\<open>id\<close> and \<^verbatim>\<open>function_name\<close> of the handle are \<open>handle_id\<close> and
  \<open>handle_function_name\<close> here, since the entry has a \<^verbatim>\<open>function_name\<close> too.
\<close>

record PHookEntry =
  function_name :: "char list"
  original_function :: fptr
  replacement_function :: fptr
  is_active :: bool

record PHookHandle =
  handle_id :: "32 word"
  handle_function_name :: "char list"
  is_valid :: bool

record PHookConfigData =
  user_id :: "32 word"
  group_id :: "32 word"
  hostname :: "char list"
  system_name :: "char list"
  machine :: "char list"
  release :: "char list"
  version :: "char list"

text \<open>The file's global variables.\<close>

record ph_state =
  g_hook_system_initialized :: bool
  g_debug_logging_enabled :: bool
  g_hook_list :: "PHookEntry list"
  g_next_hook_id :: "32 word"
  g_config_data :: PHookConfigData

text \<open>
  What the process environment decides: the symbol table seen by \<^verbatim>\<open>dlsym\<close>, whether
  \<^verbatim>\<open>malloc\<close> returns a block, and whether \<^verbatim>\<open>__APPLE__\<close> is defined.
\<close>

record env =
  dlsym :: "char list \<Rightarrow> fptr"
  malloc_ok :: bool
  apple :: bool

text \<open>The state of a freshly loaded library: the static initialisers.\<close>

definition zero_config :: PHookConfigData where
  "zero_config = \<lparr> user_id = 0, group_id = 0,
     hostname = replicate 256 NUL, system_name = replicate 256 NUL,
     machine = replicate 256 NUL, release = replicate 256 NUL,
     version = replicate 512 NUL \<rparr>"

definition initial_state :: ph_state where
  "initial_state = \<lparr> g_hook_system_initialized = False, g_debug_logging_enabled = False,
     g_hook_list = [], g_next_hook_id = 1, g_config_data = zero_config \<rparr>"

section \<open>Core implementation (privarion\_hook.c)\<close>

text \<open>
  Every function below runs its body between \<^verbatim>\<open>pthread_mutex_lock\<close> and
  \<^verbatim>\<open>pthread_mutex_unlock\<close> on \<^verbatim>\<open>g_hook_mutex\<close>; a call is one transition of the state.
  \<^verbatim>\<open>ph_log_debug\<close> only prints and is left out.
\<close>

definition ph_is_platform_supported :: "env \<Rightarrow> bool" where
  "ph_is_platform_supported e = apple e"

fun find_loop :: "PHookEntry list \<Rightarrow> char list \<Rightarrow> PHookEntry option" where
  "find_loop [] name = None"
| "find_loop (current # rest) name =
     (if strcmp (function_name current) name = 0 then Some current
      else find_loop rest name)"

definition ph_find_hook_by_name :: "ph_state \<Rightarrow> char list \<Rightarrow> PHookEntry option" where
  "ph_find_hook_by_name s name = find_loop (g_hook_list s) name"

definition ph_find_hook_by_id :: "ph_state \<Rightarrow> 32 word \<Rightarrow> PHookEntry option" where
  "ph_find_hook_by_id s i = None"

definition ph_initialize :: "env \<Rightarrow> ph_state \<Rightarrow> PHResult \<times> ph_state" where
  "ph_initialize e s =
     (if g_hook_system_initialized s then (PH_SUCCESS, s)
      else if \<not> ph_is_platform_supported e then (PH_ERROR_UNSUPPORTED_PLATFORM, s)
      else (PH_SUCCESS,
            s\<lparr> g_hook_list := [], g_next_hook_id := 1, g_hook_system_initialized := True \<rparr>))"

definition ph_cleanup :: "ph_state \<Rightarrow> ph_state" where
  "ph_cleanup s =
     (if \<not> g_hook_system_initialized s then s
      else s\<lparr> g_hook_list := [], g_hook_system_initialized := False \<rparr>)"

text \<open>
  The argument \<open>handle\<close> is the caller's struct behind the pointer (\<open>None\<close>: a null
  pointer); the third component of the result is that struct after the call. The new
  entry's array is written in full (255 bytes by \<^verbatim>\<open>strncpy\<close>, the last one by the
  assignment), so what \<^verbatim>\<open>malloc\<close> left in the block does not show.
\<close>

definition ph_install_hook ::
  "env \<Rightarrow> ph_state \<Rightarrow> char list option \<Rightarrow> fptr \<Rightarrow> PHookHandle option
     \<Rightarrow> PHResult \<times> ph_state \<times> PHookHandle option" where
  "ph_install_hook e s fn_name replacement handle =
     (case fn_name of
        None \<Rightarrow> (PH_ERROR_INVALID_PARAM, s, handle)
      | Some name \<Rightarrow>
          if replacement = 0 then (PH_ERROR_INVALID_PARAM, s, handle)
          else (case handle of
                  None \<Rightarrow> (PH_ERROR_INVALID_PARAM, s, handle)
                | Some h \<Rightarrow>
                    if \<not> g_hook_system_initialized s then (PH_ERROR_INVALID_PARAM, s, handle)
                    else if ph_find_hook_by_name s name \<noteq> None
                      then (PH_ERROR_ALREADY_HOOKED, s, handle)
                    else
                      let original = dlsym e (cstr name) in
                      if original = 0 then (PH_ERROR_FUNCTION_NOT_FOUND, s, handle)
                      else if \<not> malloc_ok e then (PH_ERROR_MEMORY_ERROR, s, handle)
                      else
                        let new_hook = \<lparr> function_name =
                                            (strncpy (replicate 256 NUL) name 255)[255 := NUL],
                                          original_function = original,
                                          replacement_function = replacement,
                                          is_active = True \<rparr>
                        in (PH_SUCCESS,
                            s\<lparr> g_hook_list := new_hook # g_hook_list s,
                               g_next_hook_id := g_next_hook_id s + 1 \<rparr>,
                            Some (h\<lparr> handle_id := g_next_hook_id s,
                                     handle_function_name :=
                                       (strncpy (handle_function_name h) name 255)[255 := NUL],
                                     is_valid := True \<rparr>))))"

text \<open>
  The removal loop: the first entry whose name compares equal is unlinked; \<open>None\<close> when
  the end of the list is reached.
\<close>

fun remove_loop :: "PHookEntry list \<Rightarrow> char list \<Rightarrow> PHookEntry list option" where
  "remove_loop [] name = None"
| "remove_loop (current # rest) name =
     (if strcmp (function_name current) name = 0 then Some rest
      else map_option (Cons current) (remove_loop rest name))"

text \<open>The handle is behind a pointer to \<^verbatim>\<open>const\<close>: the call returns no new handle.\<close>

definition ph_remove_hook :: "ph_state \<Rightarrow> PHookHandle option \<Rightarrow> PHResult \<times> ph_state" where
  "ph_remove_hook s handle =
     (case handle of
        None \<Rightarrow> (PH_ERROR_INVALID_PARAM, s)
      | Some h \<Rightarrow>
          if \<not> is_valid h then (PH_ERROR_INVALID_PARAM, s)
          else if \<not> g_hook_system_initialized s then (PH_ERROR_INVALID_PARAM, s)
          else (case remove_loop (g_hook_list s) (handle_function_name h) of
                  Some l \<Rightarrow> (PH_SUCCESS, s\<lparr> g_hook_list := l \<rparr>)
                | None \<Rightarrow> (PH_ERROR_NOT_HOOKED, s)))"

definition ph_get_original :: "ph_state \<Rightarrow> PHookHandle option \<Rightarrow> fptr" where
  "ph_get_original s handle =
     (case handle of
        None \<Rightarrow> 0
      | Some h \<Rightarrow>
          if \<not> is_valid h then 0
          else (case ph_find_hook_by_name s (handle_function_name h) of
                  Some hook \<Rightarrow> original_function hook
                | None \<Rightarrow> 0))"

definition ph_is_hooked :: "ph_state \<Rightarrow> char list option \<Rightarrow> bool" where
  "ph_is_hooked s fn_name =
     (case fn_name of
        None \<Rightarrow> False
      | Some name \<Rightarrow> ph_find_hook_by_name s name \<noteq> None)"

definition ph_set_debug_logging :: "ph_state \<Rightarrow> bool \<Rightarrow> ph_state" where
  "ph_set_debug_logging s enabled = s\<lparr> g_debug_logging_enabled := enabled \<rparr>"

fun count_loop :: "PHookEntry list \<Rightarrow> 32 word \<Rightarrow> 32 word" where
  "count_loop [] count = count"
| "count_loop (current # rest) count =
     count_loop rest (if is_active current then count + 1 else count)"

definition ph_get_active_hook_count :: "ph_state \<Rightarrow> 32 word" where
  "ph_get_active_hook_count s = count_loop (g_hook_list s) 0"

text \<open>
  \<^verbatim>\<open>size_t\<close> is 64 bits wide on the one supported platform; the sum in the guard is
  taken modulo \<open>2 ^ 64\<close>. \<open>buffer_size - 1\<close> is only computed for a nonzero size.
\<close>

fun active_hooks_loop ::
  "PHookEntry list \<Rightarrow> nat \<Rightarrow> mem \<Rightarrow> nat \<Rightarrow> 32 word \<Rightarrow> 32 word \<times> mem" where
  "active_hooks_loop [] buffer_size buffer offset count = (count, buffer)"
| "active_hooks_loop (current # rest) buffer_size buffer offset count =
     (if offset < buffer_size - 1 then
        (if is_active current then
           (let name_len = strlen (function_name current) in
            if (offset + name_len + 1) mod 2 ^ 64 < buffer_size
            then active_hooks_loop rest buffer_size
                   (strcpy_mem buffer offset (function_name current))
                   ((offset + (name_len + 1)) mod 2 ^ 64) (count + 1)
            else (count, buffer))
         else active_hooks_loop rest buffer_size buffer offset count)
      else (count, buffer))"

definition ph_get_active_hooks ::
  "ph_state \<Rightarrow> mem option \<Rightarrow> nat \<Rightarrow> 32 word \<times> mem option" where
  "ph_get_active_hooks s buffer buffer_size =
     (case buffer of
        None \<Rightarrow> (0, None)
      | Some b \<Rightarrow>
          if buffer_size = 0 then (0, buffer)
          else (case active_hooks_loop (g_hook_list s) buffer_size b 0 0 of
                  (count, b') \<Rightarrow> (count, Some b')))"

section \<open>Pre-defined replacement functions\<close>

definition hooked_getuid :: "ph_state \<Rightarrow> 32 word" where
  "hooked_getuid s = user_id (g_config_data s)"

definition hooked_getgid :: "ph_state \<Rightarrow> 32 word" where
  "hooked_getgid s = group_id (g_config_data s)"

text \<open>
  \<open>name\<close> is the caller's buffer, \<open>len\<close> the capacity it announces; the result is the
  return value and the buffer after the call.
\<close>

definition hooked_gethostname :: "ph_state \<Rightarrow> mem \<Rightarrow> nat \<Rightarrow> int \<times> mem" where
  "hooked_gethostname s name len =
     (let hostname_len = strlen (hostname (g_config_data s)) in
      if len \<le> hostname_len then (- 1, name)
      else (0, (strncpy_mem name 0 (hostname (g_config_data s)) (len - 1))(len - 1 := NUL)))"

text \<open>
  The addresses of the four static handlers: non-null and pairwise different; their
  values play no other role.
\<close>

definition hooked_getuid_addr :: fptr where "hooked_getuid_addr = 1"
definition hooked_getgid_addr :: fptr where "hooked_getgid_addr = 2"
definition hooked_gethostname_addr :: fptr where "hooked_gethostname_addr = 3"
definition hooked_uname_addr :: fptr where "hooked_uname_addr = 4"

section \<open>Configuration-driven hook installation\<close>

text \<open>
  These four functions touch \<^verbatim>\<open>g_config_data\<close> outside \<^verbatim>\<open>ph_install_hook\<close>, some of
  them between a lock and an unlock of \<^verbatim>\<open>g_hook_mutex\<close> and some not. Their model
  keeps, next to the state, the sequence of synchronisation events of the call: the
  three primitives below are the statements of the source and each appends its event.
\<close>

datatype sync_event = Mutex_lock | Mutex_unlock | Config_write

type_synonym traced = "ph_state \<times> sync_event list"

definition pthread_mutex_lock :: "traced \<Rightarrow> traced" where
  "pthread_mutex_lock st = (fst st, snd st @ [Mutex_lock])"

definition pthread_mutex_unlock :: "traced \<Rightarrow> traced" where
  "pthread_mutex_unlock st = (fst st, snd st @ [Mutex_unlock])"

definition config_assign :: "(PHookConfigData \<Rightarrow> PHookConfigData) \<Rightarrow> traced \<Rightarrow> traced" where
  "config_assign f st =
     ((fst st)\<lparr> g_config_data := f (g_config_data (fst st)) \<rparr>, snd st @ [Config_write])"

text \<open>
  \<^verbatim>\<open>ph_install_hook\<close>, once past its argument check, locks the mutex, never assigns to
  \<^verbatim>\<open>g_config_data\<close>, and unlocks on each of its return paths.
\<close>

definition ph_install_hook_sync ::
  "char list option \<Rightarrow> fptr \<Rightarrow> PHookHandle option \<Rightarrow> sync_event list" where
  "ph_install_hook_sync fn_name replacement handle =
     (if fn_name = None \<or> replacement = 0 \<or> handle = None then []
      else [Mutex_lock, Mutex_unlock])"

definition install_traced ::
  "env \<Rightarrow> traced \<Rightarrow> char list \<Rightarrow> fptr \<Rightarrow> PHookHandle option
     \<Rightarrow> PHResult \<times> ph_state \<times> PHookHandle option \<times> sync_event list" where
  "install_traced e st name replacement handle =
     (case ph_install_hook e (fst st) (Some name) replacement handle of
        (r, s', h') \<Rightarrow>
          (r, s', h', snd st @ ph_install_hook_sync (Some name) replacement handle))"

definition ph_install_getuid_hook ::
  "env \<Rightarrow> ph_state \<Rightarrow> PHookConfigData option \<Rightarrow> PHookHandle option
     \<Rightarrow> PHResult \<times> ph_state \<times> PHookHandle option \<times> sync_event list" where
  "ph_install_getuid_hook e s config_data handle =
     (case config_data of
        None \<Rightarrow> (PH_ERROR_INVALID_PARAM, s, handle, [])
      | Some c \<Rightarrow>
          if handle = None then (PH_ERROR_INVALID_PARAM, s, handle, [])
          else
            let st1 = pthread_mutex_lock (s, []);
                st2 = config_assign (\<lambda>g. g\<lparr> user_id := user_id c \<rparr>) st1;
                st3 = pthread_mutex_unlock st2
            in install_traced e st3 ''getuid'' hooked_getuid_addr handle)"

definition ph_install_getgid_hook ::
  "env \<Rightarrow> ph_state \<Rightarrow> PHookConfigData option \<Rightarrow> PHookHandle option
     \<Rightarrow> PHResult \<times> ph_state \<times> PHookHandle option \<times> sync_event list" where
  "ph_install_getgid_hook e s config_data handle =
     (case config_data of
        None \<Rightarrow> (PH_ERROR_INVALID_PARAM, s, handle, [])
      | Some c \<Rightarrow>
          if handle = None then (PH_ERROR_INVALID_PARAM, s, handle, [])
          else
            let st1 = pthread_mutex_lock (s, []);
                st2 = config_assign (\<lambda>g. g\<lparr> group_id := group_id c \<rparr>) st1;
                st3 = pthread_mutex_unlock st2
            in install_traced e st3 ''getgid'' hooked_getgid_addr handle)"

definition ph_install_gethostname_hook ::
  "env \<Rightarrow> ph_state \<Rightarrow> PHookConfigData option \<Rightarrow> PHookHandle option
     \<Rightarrow> PHResult \<times> ph_state \<times> PHookHandle option \<times> sync_event list" where
  "ph_install_gethostname_hook e s config_data handle =
     (case config_data of
        None \<Rightarrow> (PH_ERROR_INVALID_PARAM, s, handle, [])
      | Some c \<Rightarrow>
          if handle = None then (PH_ERROR_INVALID_PARAM, s, handle, [])
          else
            let st1 = config_assign
                        (\<lambda>g. g\<lparr> hostname := strncpy (hostname g) (hostname c) 255 \<rparr>) (s, []);
                st2 = config_assign (\<lambda>g. g\<lparr> hostname := (hostname g)[255 := NUL] \<rparr>) st1
            in install_traced e st2 ''gethostname'' hooked_gethostname_addr handle)"

definition ph_install_uname_hook ::
  "env \<Rightarrow> ph_state \<Rightarrow> PHookConfigData option \<Rightarrow> PHookHandle option
     \<Rightarrow> PHResult \<times> ph_state \<times> PHookHandle option \<times> sync_event list" where
  "ph_install_uname_hook e s config_data handle =
     (case config_data of
        None \<Rightarrow> (PH_ERROR_INVALID_PARAM, s, handle, [])
      | Some c \<Rightarrow>
          if handle = None then (PH_ERROR_INVALID_PARAM, s, handle, [])
          else
            let st1 = config_assign
                        (\<lambda>g. g\<lparr> system_name := strncpy (system_name g) (system_name c) 255 \<rparr>)
                        (s, []);
                st2 = config_assign
                        (\<lambda>g. g\<lparr> machine := strncpy (machine g) (machine c) 255 \<rparr>) st1;
                st3 = config_assign
                        (\<lambda>g. g\<lparr> release := strncpy (release g) (release c) 255 \<rparr>) st2;
                st4 = config_assign
                        (\<lambda>g. g\<lparr> version := strncpy (version g) (version c) 511 \<rparr>) st3;
                st5 = config_assign
                        (\<lambda>g. g\<lparr> hostname := strncpy (hostname g) (hostname c) 255 \<rparr>) st4;
                st6 = config_assign (\<lambda>g. g\<lparr> system_name := (system_name g)[255 := NUL] \<rparr>) st5;
                st7 = config_assign (\<lambda>g. g\<lparr> machine := (machine g)[255 := NUL] \<rparr>) st6;
                st8 = config_assign (\<lambda>g. g\<lparr> release := (release g)[255 := NUL] \<rparr>) st7;
                st9 = config_assign (\<lambda>g. g\<lparr> version := (version g)[511 := NUL] \<rparr>) st8;
                st10 = config_assign (\<lambda>g. g\<lparr> hostname := (hostname g)[255 := NUL] \<rparr>) st9
            in install_traced e st10 ''uname'' hooked_uname_addr handle)"

text \<open>The system-call specific wrappers.\<close>

definition ph_hook_uname ::
  "env \<Rightarrow> ph_state \<Rightarrow> fptr \<Rightarrow> PHookHandle option \<Rightarrow> PHResult \<times> ph_state \<times> PHookHandle option" where
  "ph_hook_uname e s replacement handle = ph_install_hook e s (Some ''uname'') replacement handle"

definition ph_hook_gethostname ::
  "env \<Rightarrow> ph_state \<Rightarrow> fptr \<Rightarrow> PHookHandle option \<Rightarrow> PHResult \<times> ph_state \<times> PHookHandle option" where
  "ph_hook_gethostname e s replacement handle =
     ph_install_hook e s (Some ''gethostname'') replacement handle"

definition ph_hook_getuid ::
  "env \<Rightarrow> ph_state \<Rightarrow> fptr \<Rightarrow> PHookHandle option \<Rightarrow> PHResult \<times> ph_state \<times> PHookHandle option" where
  "ph_hook_getuid e s replacement handle = ph_install_hook e s (Some ''getuid'') replacement handle"

definition ph_hook_getgid ::
  "env \<Rightarrow> ph_state \<Rightarrow> fptr \<Rightarrow> PHookHandle option \<Rightarrow> PHResult \<times> ph_state \<times> PHookHandle option" where
  "ph_hook_getgid e s replacement handle = ph_install_hook e s (Some ''getgid'') replacement handle"

text \<open>
  The lock discipline read off a trace: \<open>held\<close> tells whether the mutex is held, and
  every \<open>Config_write\<close> must find it held.
\<close>

fun writes_locked :: "bool \<Rightarrow> sync_event list \<Rightarrow> bool" where
  "writes_locked held [] = True"
| "writes_locked held (Mutex_lock # evs) = writes_locked True evs"
| "writes_locked held (Mutex_unlock # evs) = writes_locked False evs"
| "writes_locked held (Config_write # evs) = (held \<and> writes_locked held evs)"

section \<open>Sequences of API calls\<close>

text \<open>
  A call of the public interface with its arguments. Each call of a sequence comes with
  the environment it runs in, since the symbol table and the allocator may change
  between calls.
\<close>

datatype call =
    Initialize
  | Cleanup
  | Install_hook "char list option" fptr "PHookHandle option"
  | Remove_hook "PHookHandle option"
  | Install_getuid_hook "PHookConfigData option" "PHookHandle option"
  | Install_getgid_hook "PHookConfigData option" "PHookHandle option"
  | Install_gethostname_hook "PHookConfigData option" "PHookHandle option"
  | Install_uname_hook "PHookConfigData option" "PHookHandle option"
  | Hook_uname fptr "PHookHandle option"
  | Hook_gethostname fptr "PHookHandle option"
  | Hook_getuid fptr "PHookHandle option"
  | Hook_getgid fptr "PHookHandle option"
  | Set_debug_logging bool

text \<open>
  The result code (\<open>None\<close> for a \<^verbatim>\<open>void\<close> function), the next state, and the handle
  struct behind the out-parameter of an installing call (\<open>None\<close> for the other calls).
\<close>

definition untraced ::
  "PHResult \<times> ph_state \<times> PHookHandle option \<times> sync_event list
     \<Rightarrow> PHResult option \<times> ph_state \<times> PHookHandle option" where
  "untraced x = (case x of (r, s, h, t) \<Rightarrow> (Some r, s, h))"

definition coded ::
  "PHResult \<times> ph_state \<times> PHookHandle option
     \<Rightarrow> PHResult option \<times> ph_state \<times> PHookHandle option" where
  "coded x = (case x of (r, s, h) \<Rightarrow> (Some r, s, h))"

fun exec :: "env \<Rightarrow> ph_state \<Rightarrow> call \<Rightarrow> PHResult option \<times> ph_state \<times> PHookHandle option" where
  "exec e s Initialize = (case ph_initialize e s of (r, s') \<Rightarrow> (Some r, s', None))"
| "exec e s Cleanup = (None, ph_cleanup s, None)"
| "exec e s (Install_hook n r h) = coded (ph_install_hook e s n r h)"
| "exec e s (Remove_hook h) = (case ph_remove_hook s h of (r, s') \<Rightarrow> (Some r, s', None))"
| "exec e s (Install_getuid_hook c h) = untraced (ph_install_getuid_hook e s c h)"
| "exec e s (Install_getgid_hook c h) = untraced (ph_install_getgid_hook e s c h)"
| "exec e s (Install_gethostname_hook c h) = untraced (ph_install_gethostname_hook e s c h)"
| "exec e s (Install_uname_hook c h) = untraced (ph_install_uname_hook e s c h)"
| "exec e s (Hook_uname r h) = coded (ph_hook_uname e s r h)"
| "exec e s (Hook_gethostname r h) = coded (ph_hook_gethostname e s r h)"
| "exec e s (Hook_getuid r h) = coded (ph_hook_getuid e s r h)"
| "exec e s (Hook_getgid r h) = coded (ph_hook_getgid e s r h)"
| "exec e s (Set_debug_logging b) = (None, ph_set_debug_logging s b, None)"

fun run :: "ph_state \<Rightarrow> (env \<times> call) list \<Rightarrow> ph_state" where
  "run s [] = s"
| "run s ((e, c) # cs) = run (fst (snd (exec e s c))) cs"

text \<open>The ids handed out by the successful installs of a sequence, in order.\<close>

definition issued_id :: "env \<Rightarrow> ph_state \<Rightarrow> call \<Rightarrow> 32 word list" where
  "issued_id e s c =
     (case exec e s c of
        (Some PH_SUCCESS, s', Some h) \<Rightarrow> [handle_id h]
      | _ \<Rightarrow> [])"

fun issued_ids :: "ph_state \<Rightarrow> (env \<times> call) list \<Rightarrow> 32 word list" where
  "issued_ids s [] = []"
| "issued_ids s ((e, c) # cs) = issued_id e s c @ issued_ids (fst (snd (exec e s c))) cs"

section \<open>Properties of the registry and of call sequences\<close>

text \<open>The names held by the entries of the list, as C strings, head first.\<close>

definition entry_names :: "PHookEntry list \<Rightarrow> char list list" where
  "entry_names l = map (\<lambda>en. cstr (function_name en)) l"

text \<open>An uninitialised registry has no entry.\<close>

definition empty_when_down :: "ph_state \<Rightarrow> bool" where
  "empty_when_down s = (g_hook_system_initialized s \<or> g_hook_list s = [])"

text \<open>Every stored name ends before the last byte of its 256-byte array.\<close>

definition names_terminated :: "ph_state \<Rightarrow> bool" where
  "names_terminated s = list_all (\<lambda>en. strlen (function_name en) \<le> 255) (g_hook_list s)"

text \<open>
  A call ends the hook on \<open>name\<close> when it is \<^verbatim>\<open>ph_cleanup\<close>, or a \<^verbatim>\<open>ph_remove_hook\<close>
  that returns \<^verbatim>\<open>PH_SUCCESS\<close> for a handle carrying that name.
\<close>

fun ends_hook :: "char list \<Rightarrow> ph_state \<Rightarrow> call \<Rightarrow> bool" where
  "ends_hook name s Cleanup = True"
| "ends_hook name s (Remove_hook (Some h)) =
     (strcmp (handle_function_name h) name = 0 \<and> fst (ph_remove_hook s (Some h)) = PH_SUCCESS)"
| "ends_hook name s c = False"

fun hook_kept :: "char list \<Rightarrow> ph_state \<Rightarrow> (env \<times> call) list \<Rightarrow> bool" where
  "hook_kept name s [] = True"
| "hook_kept name s ((e, c) # cs) =
     (\<not> ends_hook name s c \<and> hook_kept name (fst (snd (exec e s c))) cs)"

text \<open>
  No call of the sequence runs the resetting lines of \<^verbatim>\<open>ph_initialize\<close> (it reaches them
  on a supported platform when the registry is not initialised).
\<close>

fun no_reset :: "ph_state \<Rightarrow> (env \<times> call) list \<Rightarrow> bool" where
  "no_reset s [] = True"
| "no_reset s ((e, c) # cs) =
     (\<not> (c = Initialize \<and> \<not> g_hook_system_initialized s \<and> ph_is_platform_supported e)
      \<and> no_reset (fst (snd (exec e s c))) cs)"

subsection \<open>A small concrete scenario\<close>

definition long_name :: "char list" where
  "long_name = replicate 256 CHR ''a''"

definition demo_env :: env where
  "demo_env = \<lparr> dlsym = (\<lambda>n. if n = ''getuid'' then 4096
                               else if n = ''gethostname'' then 8192
                               else if n = ''uname'' then 12288
                               else if n = long_name then 16384 else 0),
                malloc_ok = True, apple = True \<rparr>"

definition blank_handle :: PHookHandle where
  "blank_handle = \<lparr> handle_id = 0, handle_function_name = replicate 256 NUL, is_valid = False \<rparr>"

definition name_array :: "char list \<Rightarrow> char list" where
  "name_array n = (strncpy (replicate 256 NUL) n 255)[255 := NUL]"

definition demo_entry :: "char list \<Rightarrow> fptr \<Rightarrow> fptr \<Rightarrow> PHookEntry" where
  "demo_entry n orig repl = \<lparr> function_name = name_array n, original_function = orig,
     replacement_function = repl, is_active = True \<rparr>"

definition demo_handle :: "32 word \<Rightarrow> char list \<Rightarrow> PHookHandle" where
  "demo_handle i n = \<lparr> handle_id = i, handle_function_name = name_array n, is_valid = True \<rparr>"

definition demo_state :: "PHookEntry list \<Rightarrow> 32 word \<Rightarrow> ph_state" where
  "demo_state l i = \<lparr> g_hook_system_initialized = True, g_debug_logging_enabled = False,
     g_hook_list = l, g_next_hook_id = i, g_config_data = zero_config \<rparr>"

subsection \<open>Buffers\<close>

text \<open>The bytes of a sequence of names written one after the other, each with its NUL.\<close>

definition packed :: "char list list \<Rightarrow> char list" where
  "packed ns = concat (map (\<lambda>n. n @ [NUL]) ns)"

definition active_names :: "ph_state \<Rightarrow> char list list" where
  "active_names s = entry_names (filter is_active (g_hook_list s))"

definition blank_mem :: mem where
  "blank_mem = (\<lambda>i. CHR ''x'')"

definition demo_host_state :: ph_state where
  "demo_host_state =
     (demo_state [] 1)\<lparr> g_config_data := zero_config\<lparr> hostname := name_array ''abc'' \<rparr> \<rparr>"

definition demo_two :: ph_state where
  "demo_two = demo_state [demo_entry ''uname'' 12288 7, demo_entry ''getuid'' 4096 7] 3"

subsection \<open>The names a call sequence installs\<close>

text \<open>The name that a call hands to \<^verbatim>\<open>ph_install_hook\<close>, for the calls that install.\<close>

fun call_name :: "call \<Rightarrow> char list option" where
  "call_name (Install_hook n r h) = n"
| "call_name (Install_getuid_hook c h) = Some ''getuid''"
| "call_name (Install_getgid_hook c h) = Some ''getgid''"
| "call_name (Install_gethostname_hook c h) = Some ''gethostname''"
| "call_name (Install_uname_hook c h) = Some ''uname''"
| "call_name (Hook_uname r h) = Some ''uname''"
| "call_name (Hook_gethostname r h) = Some ''gethostname''"
| "call_name (Hook_getuid r h) = Some ''getuid''"
| "call_name (Hook_getgid r h) = Some ''getgid''"
| "call_name c = None"

definition short_name :: "call \<Rightarrow> bool" where
  "short_name c = (case call_name c of None \<Rightarrow> True | Some n \<Rightarrow> strlen n < 256)"

definition unique_names :: "ph_state \<Rightarrow> bool" where
  "unique_names s = distinct (entry_names (g_hook_list s))"

subsection \<open>How a call moves the registry\<close>

definition same_registry :: "ph_state \<Rightarrow> ph_state \<Rightarrow> bool" where
  "same_registry s s' =
     (g_hook_list s' = g_hook_list s \<and> g_next_hook_id s' = g_next_hook_id s \<and>
      g_hook_system_initialized s' = g_hook_system_initialized s)"

text \<open>
  Each call does one of five things to the list, the counter and the flag; \<open>effect_ok\<close>
  says what each of the five means for the outcome of \<open>exec\<close>.
\<close>

datatype effect =
    Unchanged
  | Installed "char list" PHookHandle
  | Removed PHookHandle
  | Reset
  | Cleaned

definition effect_ok ::
  "ph_state \<Rightarrow> call \<Rightarrow> PHResult option \<times> ph_state \<times> PHookHandle option \<Rightarrow> effect \<Rightarrow> bool" where
  "effect_ok s c out eff =
     (case out of (r, s', ho) \<Rightarrow>
      (case eff of
         Unchanged \<Rightarrow> same_registry s s' \<and> (ho = None \<or> r \<noteq> Some PH_SUCCESS)
       | Installed n h \<Rightarrow>
           call_name c = Some n \<and>
           r = Some PH_SUCCESS \<and> ho = Some h \<and> handle_id h = g_next_hook_id s \<and>
           g_hook_system_initialized s \<and> g_hook_system_initialized s' \<and>
           g_next_hook_id s' = g_next_hook_id s + 1 \<and>
           find_loop (g_hook_list s) n = None \<and>
           (\<exists>en. g_hook_list s' = en # g_hook_list s \<and> function_name en = name_array n)
       | Removed h \<Rightarrow>
           c = Remove_hook (Some h) \<and> r = Some PH_SUCCESS \<and> ho = None \<and>
           g_hook_system_initialized s \<and> g_hook_system_initialized s' \<and>
           g_next_hook_id s' = g_next_hook_id s \<and>
           remove_loop (g_hook_list s) (handle_function_name h) = Some (g_hook_list s')
       | Reset \<Rightarrow>
           c = Initialize \<and> ho = None \<and> \<not> g_hook_system_initialized s \<and>
           g_hook_system_initialized s' \<and> g_hook_list s' = [] \<and> g_next_hook_id s' = 1
       | Cleaned \<Rightarrow>
           c = Cleanup \<and> ho = None \<and> g_hook_system_initialized s \<and>
           \<not> g_hook_system_initialized s' \<and> g_hook_list s' = [] \<and>
           g_next_hook_id s' = g_next_hook_id s))"

section \<open>Strings: auxiliary facts\<close>

lemma NUL_of_char: "of_char c = (0::nat) \<longleftrightarrow> c = NUL"
proof -
  have "of_char NUL = (0::nat)" by (simp add: NUL_def)
  then show ?thesis by (metis of_char_eq_iff)
qed

lemma strcmp_eq_0_iff: "strcmp a b = 0 \<longleftrightarrow> cstr a = cstr b"
  by (induction a b rule: strcmp.induct) (simp_all add: cstr_def NUL_of_char)

lemma cstr_no_NUL: "NUL \<notin> set (cstr xs)"
  by (auto simp: cstr_def dest: set_takeWhileD)

lemma cstr_append_NUL: "NUL \<notin> set xs \<Longrightarrow> cstr (xs @ NUL # ys) = xs"
  unfolding cstr_def by (induction xs) auto

lemma cstr_append_no_NUL: "NUL \<notin> set xs \<Longrightarrow> cstr (xs @ ys) = xs @ cstr ys"
  unfolding cstr_def by (induction xs) auto

lemma cstr_idem: "cstr (cstr xs) = cstr xs"
  by (simp add: cstr_def)

text \<open>What a bounded copy followed by the terminating assignment leaves in an array.\<close>

lemma cstr_field: "cstr ((strncpy dst src n)[n := NUL]) = take n (cstr src)"
proof (cases "n \<le> length (cstr src)")
  case True
  then have "(strncpy dst src n)[n := NUL] = take n (cstr src) @ (drop n dst)[0 := NUL]"
    by (simp add: strncpy_def list_update_append)
  moreover have "NUL \<notin> set (take n (cstr src))"
    using cstr_no_NUL by (meson in_set_takeD)
  moreover have "cstr ((drop n dst)[0 := NUL]) = []"
    by (cases "drop n dst") (simp_all add: cstr_def)
  ultimately show ?thesis by (simp add: cstr_append_no_NUL)
next
  case False
  then obtain k where k: "n = length (cstr src) + Suc k"
    by (metis add_Suc_right less_imp_Suc_add not_le)
  have "take n (cstr src @ replicate n NUL) = cstr src @ NUL # replicate k NUL"
    unfolding k by (simp add: min_def)
  then have "strncpy dst src n = cstr src @ NUL # (replicate k NUL @ drop n dst)"
    by (simp add: strncpy_def)
  then have "cstr ((strncpy dst src n)[n := NUL]) = cstr src"
    unfolding k by (simp add: list_update_append cstr_append_NUL cstr_no_NUL)
  then show ?thesis using k by simp
qed

section \<open>The list loops\<close>

lemma find_loop_None_iff: "find_loop l n = None \<longleftrightarrow> cstr n \<notin> set (entry_names l)"
  by (induction l) (auto simp: entry_names_def strcmp_eq_0_iff)

lemma find_loop_Some:
  "find_loop l n = Some en \<Longrightarrow> en \<in> set l \<and> cstr (function_name en) = cstr n"
  by (induction l) (auto simp: strcmp_eq_0_iff split: if_splits)

lemma remove_loop_None_iff: "remove_loop l n = None \<longleftrightarrow> find_loop l n = None"
  by (induction l) auto

lemma remove_loop_names:
  "remove_loop l n = Some l' \<Longrightarrow> entry_names l' = remove1 (cstr n) (entry_names l)"
  by (induction l arbitrary: l') (auto simp: entry_names_def strcmp_eq_0_iff split: if_splits)

lemma remove_loop_subset: "remove_loop l n = Some l' \<Longrightarrow> set l' \<subseteq> set l"
  by (induction l arbitrary: l') (auto split: if_splits)

lemma remove_loop_keeps_other:
  "remove_loop l n = Some l' \<Longrightarrow> cstr m \<noteq> cstr n \<Longrightarrow> find_loop l m \<noteq> None
     \<Longrightarrow> find_loop l' m \<noteq> None"
  by (simp add: find_loop_None_iff remove_loop_names)

lemma ph_remove_hook_cases:
  "ph_remove_hook s (Some h) = (r, s') \<Longrightarrow>
     (r = PH_SUCCESS \<and> is_valid h \<and> g_hook_system_initialized s \<and>
        (\<exists>l. remove_loop (g_hook_list s) (handle_function_name h) = Some l
              \<and> s' = s\<lparr>g_hook_list := l\<rparr>))
     \<or> (r \<noteq> PH_SUCCESS \<and> s' = s)"
  by (auto simp: ph_remove_hook_def split: if_splits option.splits)

section \<open>The install path and the concrete scenario\<close>

lemma cstr_name_array: "cstr (name_array n) = take 255 (cstr n)"
  by (simp add: name_array_def cstr_field)

lemma cstr_literal: "NUL \<notin> set xs \<Longrightarrow> cstr xs = xs"
  by (auto simp: cstr_def)

lemma ph_install_hook_success:
  assumes "g_hook_system_initialized s" "r \<noteq> 0" "ph_find_hook_by_name s n = None"
    "dlsym e (cstr n) \<noteq> 0" "malloc_ok e"
  shows "ph_install_hook e s (Some n) r (Some h) =
           (PH_SUCCESS,
            s\<lparr> g_hook_list := \<lparr> function_name = name_array n,
                                original_function = dlsym e (cstr n),
                                replacement_function = r, is_active = True \<rparr> # g_hook_list s,
               g_next_hook_id := g_next_hook_id s + 1 \<rparr>,
            Some (h\<lparr> handle_id := g_next_hook_id s,
                     handle_function_name := (strncpy (handle_function_name h) n 255)[255 := NUL],
                     is_valid := True \<rparr>))"
  using assms by (simp add: ph_install_hook_def Let_def name_array_def)

lemma ph_install_hook_cases:
  assumes "ph_install_hook e s fn r ho = (res, s', ho')"
  shows "(res \<noteq> PH_SUCCESS \<and> s' = s \<and> ho' = ho) \<or>
         (res = PH_SUCCESS \<and> g_hook_system_initialized s \<and> r \<noteq> 0 \<and> malloc_ok e \<and>
          (\<exists>n h. fn = Some n \<and> ho = Some h \<and> ph_find_hook_by_name s n = None
             \<and> dlsym e (cstr n) \<noteq> 0
             \<and> s' = s\<lparr> g_hook_list := \<lparr> function_name = name_array n,
                                         original_function = dlsym e (cstr n),
                                         replacement_function = r, is_active = True \<rparr>
                                       # g_hook_list s,
                        g_next_hook_id := g_next_hook_id s + 1 \<rparr>
             \<and> ho' = Some (h\<lparr> handle_id := g_next_hook_id s,
                     handle_function_name := (strncpy (handle_function_name h) n 255)[255 := NUL],
                     is_valid := True \<rparr>)))"
  using assms
  by (auto simp: ph_install_hook_def Let_def name_array_def split: option.splits if_splits)

lemma demo_state_sel:
  "g_hook_list (demo_state l i) = l" "g_hook_system_initialized (demo_state l i)"
  "g_next_hook_id (demo_state l i) = i" "g_config_data (demo_state l i) = zero_config"
  by (simp_all add: demo_state_def)

lemma demo_handle_sel:
  "is_valid (demo_handle i n)" "handle_id (demo_handle i n) = i"
  "handle_function_name (demo_handle i n) = name_array n"
  by (simp_all add: demo_handle_def)

lemma demo_entry_sel:
  "function_name (demo_entry n a b) = name_array n" "original_function (demo_entry n a b) = a"
  "replacement_function (demo_entry n a b) = b" "is_active (demo_entry n a b)"
  by (simp_all add: demo_entry_def)

lemma demo_initialize: "ph_initialize demo_env initial_state = (PH_SUCCESS, demo_state [] 1)"
  by (simp add: ph_initialize_def initial_state_def demo_state_def
      ph_is_platform_supported_def demo_env_def)

lemma demo_install_getuid:
  "ph_install_hook demo_env (demo_state [] i) (Some ''getuid'') 7 (Some blank_handle) =
     (PH_SUCCESS, demo_state [demo_entry ''getuid'' 4096 7] (i + 1),
      Some (demo_handle i ''getuid''))"
  by (simp add: ph_install_hook_def Let_def demo_state_def demo_env_def ph_find_hook_by_name_def
      cstr_def NUL_def blank_handle_def demo_entry_def demo_handle_def name_array_def strncpy_def)

lemma demo_remove_getuid:
  "ph_remove_hook (demo_state [demo_entry ''getuid'' 4096 7] i) (Some (demo_handle j ''getuid''))
     = (PH_SUCCESS, demo_state [] i)"
  by (simp add: ph_remove_hook_def demo_state_def demo_handle_def demo_entry_def strcmp_eq_0_iff)

section \<open>Removal and the validity of handles\<close>

text \<open>
  Claim C1, as the code has it. \<^verbatim>\<open>ph_remove_hook\<close> takes the handle through a pointer to
  \<^verbatim>\<open>const\<close> and never clears \<^verbatim>\<open>is_valid\<close>: after a removal that returned
  \<^verbatim>\<open>PH_SUCCESS\<close> the handle is still valid, and an entry carrying its name existed before
  the call. When the registry holds each name at most once, no entry with that name is
  left, and removing with the same handle again returns \<^verbatim>\<open>PH_ERROR_NOT_HOOKED\<close> and
  changes nothing.
\<close>

theorem remove_hook_leaves_handle_valid:
  assumes "ph_remove_hook s (Some h) = (PH_SUCCESS, s')"
  shows "is_valid h \<and>
         ph_find_hook_by_name s (handle_function_name h) \<noteq> None \<and>
         (unique_names s \<longrightarrow>
            ph_find_hook_by_name s' (handle_function_name h) = None \<and>
            ph_remove_hook s' (Some h) = (PH_ERROR_NOT_HOOKED, s'))"
proof -
  from ph_remove_hook_cases[OF assms] obtain l where
    v: "is_valid h" and i: "g_hook_system_initialized s" and
    l: "remove_loop (g_hook_list s) (handle_function_name h) = Some l" and
    s': "s' = s\<lparr>g_hook_list := l\<rparr>" by auto
  have "unique_names s \<Longrightarrow> find_loop l (handle_function_name h) = None"
    using remove_loop_names[OF l] by (simp add: find_loop_None_iff unique_names_def)
  moreover have "find_loop (g_hook_list s) (handle_function_name h) \<noteq> None"
    using l remove_loop_None_iff[of "g_hook_list s" "handle_function_name h"] by simp
  ultimately show ?thesis using v i s'
    by (auto simp: ph_find_hook_by_name_def ph_remove_hook_def remove_loop_None_iff[symmetric])
qed

text \<open>The theorem at work: the handle of a hook on \<^verbatim>\<open>getuid\<close>, removed once and then again.\<close>

theorem remove_hook_leaves_handle_valid_witness:
  "ph_remove_hook (demo_state [demo_entry ''getuid'' 4096 7] 2) (Some (demo_handle 1 ''getuid''))
     = (PH_SUCCESS, demo_state [] 2) \<and>
   unique_names (demo_state [demo_entry ''getuid'' 4096 7] 2) \<and>
   is_valid (demo_handle 1 ''getuid'') \<and>
   ph_find_hook_by_name (demo_state [] 2) (handle_function_name (demo_handle 1 ''getuid''))
     = None \<and>
   ph_remove_hook (demo_state [] 2) (Some (demo_handle 1 ''getuid''))
     = (PH_ERROR_NOT_HOOKED, demo_state [] 2)"
  using remove_hook_leaves_handle_valid [OF demo_remove_getuid [of 2 1]]
  by (simp add: demo_remove_getuid entry_names_def unique_names_def demo_state_sel)

text \<open>
  Claim C1 as stated fails: initialise, install a hook on \<^verbatim>\<open>getuid\<close>, remove it. The
  removal succeeds, the handle the caller holds is still valid, and no entry with its
  name exists.
\<close>

theorem handle_valid_without_entry:
  "ph_initialize demo_env initial_state = (PH_SUCCESS, demo_state [] 1) \<and>
   ph_install_hook demo_env (demo_state [] 1) (Some ''getuid'') 7 (Some blank_handle)
     = (PH_SUCCESS, demo_state [demo_entry ''getuid'' 4096 7] 2,
        Some (demo_handle 1 ''getuid'')) \<and>
   ph_remove_hook (demo_state [demo_entry ''getuid'' 4096 7] 2) (Some (demo_handle 1 ''getuid''))
     = (PH_SUCCESS, demo_state [] 2) \<and>
   is_valid (demo_handle 1 ''getuid'') \<and>
   ph_find_hook_by_name (demo_state [] 2) (handle_function_name (demo_handle 1 ''getuid''))
     = None"
  using demo_install_getuid [of 1]
  by (simp add: demo_initialize demo_remove_getuid demo_handle_sel ph_find_hook_by_name_def
      demo_state_sel)

section \<open>What each call does to the registry\<close>

lemma install_effect:
  assumes "same_registry s s1" and "call_name c = fn"
  shows "\<exists>eff. effect_ok s c (coded (ph_install_hook e s1 fn r ho)) eff"
proof -
  obtain res s' ho' where x: "ph_install_hook e s1 fn r ho = (res, s', ho')"
    by (metis prod_cases3)
  from ph_install_hook_cases[OF x] show ?thesis
  proof
    assume "res \<noteq> PH_SUCCESS \<and> s' = s1 \<and> ho' = ho"
    then have "effect_ok s c (coded (ph_install_hook e s1 fn r ho)) Unchanged"
      using assms x by (simp add: effect_ok_def coded_def)
    then show ?thesis by blast
  next
    assume a: "res = PH_SUCCESS \<and> g_hook_system_initialized s1 \<and> r \<noteq> 0 \<and> malloc_ok e \<and>
          (\<exists>n h. fn = Some n \<and> ho = Some h \<and> ph_find_hook_by_name s1 n = None
             \<and> dlsym e (cstr n) \<noteq> 0
             \<and> s' = s1\<lparr> g_hook_list := \<lparr> function_name = name_array n,
                                         original_function = dlsym e (cstr n),
                                         replacement_function = r, is_active = True \<rparr>
                                       # g_hook_list s1,
                        g_next_hook_id := g_next_hook_id s1 + 1 \<rparr>
             \<and> ho' = Some (h\<lparr> handle_id := g_next_hook_id s1,
                     handle_function_name := (strncpy (handle_function_name h) n 255)[255 := NUL],
                     is_valid := True \<rparr>))"
    then obtain n h where nh: "fn = Some n" "ho = Some h" "ph_find_hook_by_name s1 n = None"
       "s' = s1\<lparr> g_hook_list := \<lparr> function_name = name_array n,
                                         original_function = dlsym e (cstr n),
                                         replacement_function = r, is_active = True \<rparr>
                                       # g_hook_list s1,
                        g_next_hook_id := g_next_hook_id s1 + 1 \<rparr>"
        "ho' = Some (h\<lparr> handle_id := g_next_hook_id s1,
                     handle_function_name := (strncpy (handle_function_name h) n 255)[255 := NUL],
                     is_valid := True \<rparr>)" by blast
    have "effect_ok s c (coded (ph_install_hook e s1 fn r ho)) (Installed n (h\<lparr> handle_id := g_next_hook_id s1,
                     handle_function_name := (strncpy (handle_function_name h) n 255)[255 := NUL],
                     is_valid := True \<rparr>))"
      using a nh assms x by (simp add: effect_ok_def coded_def same_registry_def ph_find_hook_by_name_def)
    then show ?thesis by blast
  qed
qed

lemma untraced_install_traced:
  "untraced (install_traced e st n r ho) = coded (ph_install_hook e (fst st) (Some n) r ho)"
  by (simp add: untraced_def install_traced_def coded_def split: prod.splits)

lemma same_registry_refl: "same_registry s s"
  by (simp add: same_registry_def)

lemma same_registry_config [simp]:
  "same_registry s (fst (config_assign f st)) = same_registry s (fst st)"
  "same_registry s (fst (pthread_mutex_lock st)) = same_registry s (fst st)"
  "same_registry s (fst (pthread_mutex_unlock st)) = same_registry s (fst st)"
  by (simp_all add: same_registry_def config_assign_def pthread_mutex_lock_def pthread_mutex_unlock_def)

lemma invalid_effect:
  "effect_ok s c (Some PH_ERROR_INVALID_PARAM, s, ho) Unchanged"
  by (simp add: effect_ok_def same_registry_def)

lemma uname_effect:
  assumes "call_name c = Some ''uname''"
  shows "\<exists>eff. effect_ok s c (untraced (ph_install_uname_hook e s cfg ho)) eff"
proof (cases "cfg = None \<or> ho = None")
  case True
  then have "untraced (ph_install_uname_hook e s cfg ho) = (Some PH_ERROR_INVALID_PARAM, s, ho)"
    by (auto simp: ph_install_uname_hook_def untraced_def split: option.splits)
  then show ?thesis using invalid_effect by metis
next
  case False
  then show ?thesis using assms
    by (auto simp: ph_install_uname_hook_def Let_def untraced_install_traced same_registry_refl
        intro!: install_effect)
qed

lemma gethostname_effect:
  assumes "call_name c = Some ''gethostname''"
  shows "\<exists>eff. effect_ok s c (untraced (ph_install_gethostname_hook e s cfg ho)) eff"
proof (cases "cfg = None \<or> ho = None")
  case True
  then have "untraced (ph_install_gethostname_hook e s cfg ho) = (Some PH_ERROR_INVALID_PARAM, s, ho)"
    by (auto simp: ph_install_gethostname_hook_def untraced_def split: option.splits)
  then show ?thesis using invalid_effect by metis
next
  case False
  then show ?thesis using assms
    by (auto simp: ph_install_gethostname_hook_def Let_def untraced_install_traced same_registry_refl
        intro!: install_effect)
qed

lemma getuid_effect:
  assumes "call_name c = Some ''getuid''"
  shows "\<exists>eff. effect_ok s c (untraced (ph_install_getuid_hook e s cfg ho)) eff"
proof (cases "cfg = None \<or> ho = None")
  case True
  then have "untraced (ph_install_getuid_hook e s cfg ho) = (Some PH_ERROR_INVALID_PARAM, s, ho)"
    by (auto simp: ph_install_getuid_hook_def untraced_def split: option.splits)
  then show ?thesis using invalid_effect by metis
next
  case False
  then show ?thesis using assms
    by (auto simp: ph_install_getuid_hook_def Let_def untraced_install_traced same_registry_refl
        intro!: install_effect)
qed

lemma getgid_effect:
  assumes "call_name c = Some ''getgid''"
  shows "\<exists>eff. effect_ok s c (untraced (ph_install_getgid_hook e s cfg ho)) eff"
proof (cases "cfg = None \<or> ho = None")
  case True
  then have "untraced (ph_install_getgid_hook e s cfg ho) = (Some PH_ERROR_INVALID_PARAM, s, ho)"
    by (auto simp: ph_install_getgid_hook_def untraced_def split: option.splits)
  then show ?thesis using invalid_effect by metis
next
  case False
  then show ?thesis using assms
    by (auto simp: ph_install_getgid_hook_def Let_def untraced_install_traced same_registry_refl
        intro!: install_effect)
qed

lemma exec_effect: "\<exists>eff. effect_ok s c (exec e s c) eff"
proof (cases c)
  case Initialize
  then show ?thesis
    by (cases "g_hook_system_initialized s"; cases "ph_is_platform_supported e")
       (auto simp: ph_initialize_def effect_ok_def same_registry_def intro: exI[of _ Unchanged] exI[of _ Reset])
next
  case Cleanup
  then show ?thesis
    by (cases "g_hook_system_initialized s")
       (auto simp: ph_cleanup_def effect_ok_def same_registry_def intro: exI[of _ Unchanged] exI[of _ Cleaned])
next
  case (Install_hook n r h)
  then show ?thesis by (simp add: install_effect same_registry_refl)
next
  case (Remove_hook ho)
  show ?thesis
  proof (cases ho)
    case None
    then show ?thesis using Remove_hook
      by (auto simp: ph_remove_hook_def effect_ok_def same_registry_def intro: exI[of _ Unchanged])
  next
    case (Some h)
    obtain r s' where x: "ph_remove_hook s (Some h) = (r, s')" by (metis prod.exhaust)
    from ph_remove_hook_cases[OF x] show ?thesis
    proof
      assume "r = PH_SUCCESS \<and> is_valid h \<and> g_hook_system_initialized s \<and>
        (\<exists>l. remove_loop (g_hook_list s) (handle_function_name h) = Some l
              \<and> s' = s\<lparr>g_hook_list := l\<rparr>)"
      then have "effect_ok s c (exec e s c) (Removed h)"
        using x Some Remove_hook by (auto simp: effect_ok_def)
      then show ?thesis ..
    next
      assume "r \<noteq> PH_SUCCESS \<and> s' = s"
      then have "effect_ok s c (exec e s c) Unchanged"
        using x Some Remove_hook by (auto simp: effect_ok_def same_registry_def)
      then show ?thesis ..
    qed
  qed
next
  case (Install_getuid_hook cfg ho)
  then show ?thesis by (simp add: getuid_effect)
next
  case (Install_getgid_hook cfg ho)
  then show ?thesis by (simp add: getgid_effect)
next
  case (Install_gethostname_hook cfg ho)
  then show ?thesis by (simp add: gethostname_effect)
next
  case (Install_uname_hook cfg ho)
  then show ?thesis by (simp add: uname_effect)
next
  case (Hook_uname r h)
  then show ?thesis by (simp add: install_effect same_registry_refl ph_hook_uname_def)
next
  case (Hook_gethostname r h)
  then show ?thesis by (simp add: install_effect same_registry_refl ph_hook_gethostname_def)
next
  case (Hook_getuid r h)
  then show ?thesis by (simp add: install_effect same_registry_refl ph_hook_getuid_def)
next
  case (Hook_getgid r h)
  then show ?thesis by (simp add: install_effect same_registry_refl ph_hook_getgid_def)
next
  case (Set_debug_logging b)
  then show ?thesis
    by (auto simp: ph_set_debug_logging_def effect_ok_def same_registry_def intro: exI[of _ Unchanged])
qed

section \<open>Invariants of the registry\<close>

lemma exec_empty_when_down:
  "empty_when_down s \<Longrightarrow> empty_when_down (fst (snd (exec e s c)))"
proof -
  assume a: "empty_when_down s"
  obtain eff where "effect_ok s c (exec e s c) eff" using exec_effect by blast
  then show ?thesis using a
    by (cases eff; cases "exec e s c") (auto simp: effect_ok_def same_registry_def empty_when_down_def)
qed

lemma run_empty_when_down: "empty_when_down s \<Longrightarrow> empty_when_down (run s cs)"
  by (induction cs arbitrary: s) (auto simp: exec_empty_when_down)

lemma initial_empty_when_down: "empty_when_down initial_state"
  by (simp add: empty_when_down_def initial_state_def)

lemma strlen_name_array: "strlen (name_array n) \<le> 255"
  by (simp add: strlen_def cstr_name_array)

lemma remove_loop_list_all: "remove_loop l n = Some l' \<Longrightarrow> list_all P l \<Longrightarrow> list_all P l'"
  using remove_loop_subset by (fastforce simp: list_all_iff)

lemma exec_names_terminated:
  "names_terminated s \<Longrightarrow> names_terminated (fst (snd (exec e s c)))"
proof -
  assume a: "names_terminated s"
  obtain eff where "effect_ok s c (exec e s c) eff" using exec_effect by blast
  then show ?thesis using a
    by (cases eff; cases "exec e s c")
       (auto simp: effect_ok_def same_registry_def names_terminated_def strlen_name_array
             dest: remove_loop_list_all)
qed

lemma run_names_terminated: "names_terminated s \<Longrightarrow> names_terminated (run s cs)"
  by (induction cs arbitrary: s) (auto simp: exec_names_terminated)

text \<open>
  Names stay pairwise different as long as the names handed to \<^verbatim>\<open>ph_install_hook\<close>
  are shorter than the 256-byte array that stores them.
\<close>

lemma exec_unique_names:
  assumes "unique_names s" and "short_name c"
  shows "unique_names (fst (snd (exec e s c)))"
proof -
  obtain eff where eff: "effect_ok s c (exec e s c) eff" using exec_effect by blast
  obtain r s' ho where x: "exec e s c = (r, s', ho)" by (metis prod_cases3)
  show ?thesis
  proof (cases eff)
    case Unchanged
    then show ?thesis using eff x assms(1)
      by (simp add: effect_ok_def same_registry_def unique_names_def)
  next
    case (Installed n h)
    then obtain en where n: "call_name c = Some n" and f: "find_loop (g_hook_list s) n = None"
      and l: "g_hook_list s' = en # g_hook_list s" and en: "function_name en = name_array n"
      using eff x by (auto simp: effect_ok_def)
    have "strlen n < 256" using assms(2) n by (simp add: short_name_def)
    then have "cstr (function_name en) = cstr n"
      using en by (simp add: cstr_name_array strlen_def)
    then show ?thesis using f l assms(1) x
      by (simp add: unique_names_def entry_names_def find_loop_None_iff)
  next
    case (Removed h)
    then have "remove_loop (g_hook_list s) (handle_function_name h) = Some (g_hook_list s')"
      using eff x by (simp add: effect_ok_def)
    from remove_loop_names[OF this] show ?thesis using assms(1) x
      by (simp add: unique_names_def)
  next
    case Reset
    then show ?thesis using eff x by (simp add: effect_ok_def unique_names_def entry_names_def)
  next
    case Cleaned
    then show ?thesis using eff x by (simp add: effect_ok_def unique_names_def entry_names_def)
  qed
qed

lemma run_unique_names:
  "unique_names s \<Longrightarrow> list_all (\<lambda>x. short_name (snd x)) cs \<Longrightarrow> unique_names (run s cs)"
  by (induction cs arbitrary: s) (auto simp: exec_unique_names)

lemma initial_unique_names: "unique_names initial_state"
  by (simp add: unique_names_def initial_state_def entry_names_def)

lemma initial_names_terminated: "names_terminated initial_state"
  by (simp add: names_terminated_def initial_state_def)

lemma reachable_names_terminated: "names_terminated (run initial_state cs)"
  by (simp add: run_names_terminated initial_names_terminated)

section \<open>A hook stays installed\<close>

lemma exec_keeps_hook:
  assumes "empty_when_down s" "find_loop (g_hook_list s) name \<noteq> None" "\<not> ends_hook name s c"
  shows "find_loop (g_hook_list (fst (snd (exec e s c)))) name \<noteq> None"
proof -
  obtain eff where eff: "effect_ok s c (exec e s c) eff" using exec_effect by blast
  obtain r s' ho where x: "exec e s c = (r, s', ho)" by (metis prod_cases3)
  have i: "g_hook_system_initialized s" using assms(1,2) by (auto simp: empty_when_down_def)
  show ?thesis
  proof (cases eff)
    case Unchanged
    then show ?thesis using eff x assms(2) by (simp add: effect_ok_def same_registry_def)
  next
    case (Installed n h)
    then show ?thesis using eff x assms(2) by (auto simp: effect_ok_def)
  next
    case (Removed h)
    then have c: "c = Remove_hook (Some h)" and
      rl: "remove_loop (g_hook_list s) (handle_function_name h) = Some (g_hook_list s')"
      and r: "r = Some PH_SUCCESS"
      using eff x by (auto simp: effect_ok_def)
    have "fst (ph_remove_hook s (Some h)) = PH_SUCCESS" using x c r by (auto split: prod.splits)
    then have "cstr name \<noteq> cstr (handle_function_name h)"
      using assms(3) c by (auto simp: strcmp_eq_0_iff)
    then show ?thesis using remove_loop_keeps_other[OF rl _ assms(2)] x by simp
  next
    case Reset
    then show ?thesis using eff x i by (simp add: effect_ok_def)
  next
    case Cleaned
    then show ?thesis using eff x assms(3) by (simp add: effect_ok_def)
  qed
qed

lemma run_keeps_hook:
  "empty_when_down s \<Longrightarrow> find_loop (g_hook_list s) name \<noteq> None \<Longrightarrow> hook_kept name s cs
     \<Longrightarrow> find_loop (g_hook_list (run s cs)) name \<noteq> None"
proof (induction cs arbitrary: s)
  case Nil
  then show ?case by simp
next
  case (Cons a cs)
  obtain e c where a: "a = (e, c)" by (cases a)
  have k: "\<not> ends_hook name s c" "hook_kept name (fst (snd (exec e s c))) cs"
    using Cons.prems(3) a by simp_all
  have "find_loop (g_hook_list (run (fst (snd (exec e s c))) cs)) name \<noteq> None"
    using exec_empty_when_down[OF Cons.prems(1)] exec_keeps_hook[OF Cons.prems(1,2) k(1)] k(2)
    by (rule Cons.IH)
  then show ?case using a by simp
qed

text \<open>
  Claim C3, as the code has it. For a name of fewer than 256 bytes, a successful
  \<^verbatim>\<open>ph_install_hook\<close> makes \<^verbatim>\<open>ph_is_hooked\<close> true for it, and it is still true after
  any sequence of calls none of which is \<^verbatim>\<open>ph_cleanup\<close> or a successful
  \<^verbatim>\<open>ph_remove_hook\<close> with a handle for that name.
\<close>

theorem install_then_is_hooked:
  assumes "ph_install_hook e s (Some name) r h = (PH_SUCCESS, s1, h1)"
    and "strlen name < 256" and "hook_kept name s1 cs"
  shows "ph_is_hooked s1 (Some name) \<and> ph_is_hooked (run s1 cs) (Some name)"
proof -
  from ph_install_hook_cases[OF assms(1)] have i: "g_hook_system_initialized s" and
    s1: "g_hook_list s1 = \<lparr> function_name = name_array name,
                                         original_function = dlsym e (cstr name),
                                         replacement_function = r, is_active = True \<rparr>
                                       # g_hook_list s"
     "g_hook_system_initialized s1 = g_hook_system_initialized s"
    by auto
  have "cstr (name_array name) = cstr name"
    using assms(2) by (simp add: cstr_name_array strlen_def)
  then have f: "find_loop (g_hook_list s1) name \<noteq> None"
    using s1 by (simp add: strcmp_eq_0_iff)
  moreover have "empty_when_down s1" using i s1 by (simp add: empty_when_down_def)
  ultimately have "find_loop (g_hook_list (run s1 cs)) name \<noteq> None"
    using assms(3) by (rule_tac run_keeps_hook)
  then show ?thesis using f by (simp add: ph_is_hooked_def ph_find_hook_by_name_def)
qed

section \<open>Handle ids\<close>

lemma exec_issued:
  assumes "\<not> (c = Initialize \<and> \<not> g_hook_system_initialized s \<and> ph_is_platform_supported e)"
  shows "(issued_id e s c = [] \<and> g_next_hook_id (fst (snd (exec e s c))) = g_next_hook_id s) \<or>
         (issued_id e s c = [g_next_hook_id s] \<and>
          g_next_hook_id (fst (snd (exec e s c))) = g_next_hook_id s + 1)"
proof (cases "c = Initialize")
  case True
  then show ?thesis using assms by (auto simp: issued_id_def ph_initialize_def)
next
  case False
  obtain eff where eff: "effect_ok s c (exec e s c) eff" using exec_effect by blast
  obtain r s' ho where x: "exec e s c = (r, s', ho)" by (metis prod_cases3)
  show ?thesis using eff x False
    by (cases eff) (auto simp: effect_ok_def same_registry_def issued_id_def split: option.splits PHResult.splits)
qed

lemma issued_ids_bounds:
  "no_reset s cs \<Longrightarrow> unat (g_next_hook_id s) + length cs < 2 ^ 32 \<Longrightarrow>
     sorted_wrt (<) (issued_ids s cs) \<and>
     (\<forall>i \<in> set (issued_ids s cs). unat (g_next_hook_id s) \<le> unat i \<and>
                                    unat i < unat (g_next_hook_id s) + length cs)"
proof (induction cs arbitrary: s)
  case Nil
  then show ?case by simp
next
  case (Cons a cs)
  obtain e c where a: "a = (e, c)" by (cases a)
  let ?s' = "fst (snd (exec e s c))"
  have nr: "\<not> (c = Initialize \<and> \<not> g_hook_system_initialized s \<and> ph_is_platform_supported e)"
    and nr': "no_reset ?s' cs" using Cons.prems(1) a by simp_all
  have b: "unat (g_next_hook_id s) + Suc (length cs) < 2 ^ 32" using Cons.prems(2) by simp
  from exec_issued[OF nr] show ?case
  proof
    assume h: "issued_id e s c = [] \<and> g_next_hook_id ?s' = g_next_hook_id s"
    then have "unat (g_next_hook_id ?s') + length cs < 2 ^ 32" using b by simp
    from Cons.IH[OF nr' this] show ?thesis using h a by auto
  next
    assume h: "issued_id e s c = [g_next_hook_id s] \<and> g_next_hook_id ?s' = g_next_hook_id s + 1"
    have u: "unat (g_next_hook_id s + 1) = unat (g_next_hook_id s) + 1"
      using b by (simp add: unat_word_ariths)
    then have "unat (g_next_hook_id ?s') + length cs < 2 ^ 32" using b h by simp
    from Cons.IH[OF nr' this] show ?thesis using h a u
      by (auto simp: word_less_nat_alt)
  qed
qed

text \<open>
  Claim C6, as the code has it. Along a sequence of calls in which \<^verbatim>\<open>ph_initialize\<close>
  never resets the registry, and short enough for the 32-bit counter not to wrap, the
  ids handed out by the successful installs are strictly increasing, hence pairwise
  different, and none is below the counter the sequence started with.
\<close>

theorem ids_increase_without_reset:
  assumes "no_reset s cs" and "unat (g_next_hook_id s) + length cs < 2 ^ 32"
  shows "sorted_wrt (<) (issued_ids s cs) \<and> distinct (issued_ids s cs) \<and>
         (\<forall>i \<in> set (issued_ids s cs). g_next_hook_id s \<le> i)"
proof -
  from issued_ids_bounds[OF assms] have s: "sorted_wrt (<) (issued_ids s cs)"
    and b: "\<forall>i \<in> set (issued_ids s cs). unat (g_next_hook_id s) \<le> unat i" by auto
  from s have "distinct (issued_ids s cs)" by (simp add: strict_sorted_iff)
  then show ?thesis using s b by (simp add: word_le_nat_alt)
qed

lemma demo_cleanup:
  "ph_cleanup (demo_state l i) = (demo_state [] i)\<lparr> g_hook_system_initialized := False \<rparr>"
  by (simp add: ph_cleanup_def demo_state_def)

lemma demo_reinitialize:
  "ph_initialize demo_env ((demo_state [] i)\<lparr> g_hook_system_initialized := False \<rparr>)
     = (PH_SUCCESS, demo_state [] 1)"
  by (simp add: ph_initialize_def demo_state_def ph_is_platform_supported_def demo_env_def)

text \<open>The theorem at work: install, remove and install again hand out the ids 1 and 2.\<close>

theorem ids_increase_without_reset_witness:
  "no_reset (demo_state [] 1)
     [(demo_env, Install_hook (Some ''getuid'') 7 (Some blank_handle)),
      (demo_env, Remove_hook (Some (demo_handle 1 ''getuid''))),
      (demo_env, Install_hook (Some ''getuid'') 7 (Some blank_handle))] \<and>
   unat (g_next_hook_id (demo_state [] 1)) + length 
     [(demo_env, Install_hook (Some ''getuid'') 7 (Some blank_handle)),
      (demo_env, Remove_hook (Some (demo_handle 1 ''getuid''))),
      (demo_env, Install_hook (Some ''getuid'') 7 (Some blank_handle))] < 2 ^ 32 \<and>
   issued_ids (demo_state [] 1)
     [(demo_env, Install_hook (Some ''getuid'') 7 (Some blank_handle)),
      (demo_env, Remove_hook (Some (demo_handle 1 ''getuid''))),
      (demo_env, Install_hook (Some ''getuid'') 7 (Some blank_handle))] = [1, 2] \<and>
   sorted_wrt (<) [1, 2 :: 32 word] \<and> distinct [1, 2 :: 32 word] \<and>
   g_next_hook_id (demo_state [] 1) \<le> 1 \<and> g_next_hook_id (demo_state [] 1) \<le> 2"
proof -
  let ?cs = "[(demo_env, Install_hook (Some ''getuid'') 7 (Some blank_handle)),
      (demo_env, Remove_hook (Some (demo_handle 1 ''getuid''))),
      (demo_env, Install_hook (Some ''getuid'') 7 (Some blank_handle))]"
  have nr: "no_reset (demo_state [] 1) ?cs" by simp
  have b: "unat (g_next_hook_id (demo_state [] 1)) + length ?cs < 2 ^ 32"
    by (simp add: demo_state_sel)
  have ids: "issued_ids (demo_state [] 1) ?cs = [1, 2]"
    by (simp add: issued_id_def demo_install_getuid demo_remove_getuid coded_def demo_handle_sel)
  have "sorted_wrt (<) [1, 2 :: 32 word] \<and> distinct [1, 2 :: 32 word] \<and>
        (\<forall>i \<in> set [1, 2 :: 32 word]. g_next_hook_id (demo_state [] 1) \<le> i)"
    using ids_increase_without_reset[OF nr b] unfolding ids .
  with nr b ids show ?thesis by simp
qed

text \<open>
  Claim C6 as stated fails across \<^verbatim>\<open>ph_cleanup\<close> followed by \<^verbatim>\<open>ph_initialize\<close>:
  the second initialisation sets the counter back to 1, and the next install hands out
  the id 1 a second time.
\<close>

theorem ids_reused_after_reinitialize:
  "issued_ids initial_state
     [(demo_env, Initialize),
      (demo_env, Install_hook (Some ''getuid'') 7 (Some blank_handle)),
      (demo_env, Cleanup),
      (demo_env, Initialize),
      (demo_env, Install_hook (Some ''getuid'') 7 (Some blank_handle))] = [1, 1]"
  by (simp add: issued_id_def demo_initialize demo_install_getuid demo_cleanup demo_reinitialize
      coded_def demo_handle_sel)

section \<open>The scenario continued\<close>

lemma demo_find_getuid:
  "ph_find_hook_by_name (demo_state [demo_entry ''getuid'' 4096 7] i) ''getuid''
     = Some (demo_entry ''getuid'' 4096 7)"
  by (simp add: ph_find_hook_by_name_def demo_state_sel demo_entry_sel strcmp_eq_0_iff
      cstr_name_array cstr_literal NUL_def)

lemma long_name_length: "length long_name = 256"
  by (simp add: long_name_def)

lemma long_name_neq: "length xs \<noteq> 256 \<Longrightarrow> long_name \<noteq> xs"
  using long_name_length by auto

lemma cstr_long_name: "cstr long_name = long_name"
  by (simp add: cstr_literal long_name_def NUL_def)

lemma demo_install_long:
  "ph_install_hook demo_env (demo_state [] 1) (Some long_name) 7 (Some blank_handle) =
     (PH_SUCCESS, demo_state [demo_entry long_name 16384 7] 2, Some (demo_handle 1 long_name))"
proof -
  have d: "dlsym demo_env long_name = 16384" by (simp add: demo_env_def long_name_neq)
  have m: "malloc_ok demo_env" by (simp add: demo_env_def)
  have f: "ph_find_hook_by_name (demo_state [] 1) long_name = None"
    by (simp add: ph_find_hook_by_name_def demo_state_sel)
  have "ph_install_hook demo_env (demo_state [] 1) (Some long_name) 7 (Some blank_handle) =
          (PH_SUCCESS,
            (demo_state [] 1)\<lparr> g_hook_list := \<lparr> function_name = name_array long_name,
                                original_function = dlsym demo_env (cstr long_name),
                                replacement_function = 7, is_active = True \<rparr> # g_hook_list (demo_state [] 1),
               g_next_hook_id := g_next_hook_id (demo_state [] 1) + 1 \<rparr>,
            Some (blank_handle\<lparr> handle_id := g_next_hook_id (demo_state [] 1),
                     handle_function_name := (strncpy (handle_function_name blank_handle) long_name 255)[255 := NUL],
                     is_valid := True \<rparr>))"
    by (rule ph_install_hook_success) (simp_all add: demo_state_sel f d m cstr_long_name)
  then show ?thesis
    by (simp add: cstr_long_name d demo_state_def demo_entry_def demo_handle_def blank_handle_def
        name_array_def)
qed

lemma long_name_not_found:
  "ph_find_hook_by_name (demo_state [demo_entry long_name 16384 7] 2) long_name = None"
proof -
  have "take 255 long_name \<noteq> long_name"
  proof
    assume "take 255 long_name = long_name"
    then have "length (take 255 long_name) = length long_name" by (rule arg_cong)
    then show False by (simp add: long_name_length)
  qed
  then show ?thesis
    by (simp add: ph_find_hook_by_name_def demo_state_sel demo_entry_sel strcmp_eq_0_iff
        cstr_name_array cstr_long_name)
qed

text \<open>
  A name of 256 bytes is stored cut to 255 bytes and looked up uncut, so it is never
  found and can be installed a second time; the list then holds the cut name twice.
\<close>

lemma demo_install_long_again:
  "ph_install_hook demo_env (demo_state [demo_entry long_name 16384 7] 2) (Some long_name) 9
     (Some blank_handle) =
     (PH_SUCCESS, demo_state [demo_entry long_name 16384 9, demo_entry long_name 16384 7] 3,
      Some (demo_handle 2 long_name))"
proof -
  let ?s = "demo_state [demo_entry long_name 16384 7] 2"
  have d: "dlsym demo_env long_name = 16384" by (simp add: demo_env_def long_name_neq)
  have m: "malloc_ok demo_env" by (simp add: demo_env_def)
  have "ph_install_hook demo_env ?s (Some long_name) 9 (Some blank_handle) =
          (PH_SUCCESS,
            ?s\<lparr> g_hook_list := \<lparr> function_name = name_array long_name,
                                original_function = dlsym demo_env (cstr long_name),
                                replacement_function = 9, is_active = True \<rparr> # g_hook_list ?s,
               g_next_hook_id := g_next_hook_id ?s + 1 \<rparr>,
            Some (blank_handle\<lparr> handle_id := g_next_hook_id ?s,
                     handle_function_name :=
                       (strncpy (handle_function_name blank_handle) long_name 255)[255 := NUL],
                     is_valid := True \<rparr>))"
    by (rule ph_install_hook_success)
       (simp_all add: demo_state_sel long_name_not_found d m cstr_long_name)
  then show ?thesis
    by (simp add: cstr_long_name d demo_state_def demo_entry_def demo_handle_def blank_handle_def
        name_array_def)
qed

lemma long_name_breaks_unique_names:
  "\<not> unique_names (demo_state [demo_entry long_name 16384 9, demo_entry long_name 16384 7] 3)"
  by (simp add: unique_names_def entry_names_def demo_state_sel demo_entry_sel)

text \<open>
  Claim C3 as stated fails twice. A name of 256 bytes that the symbol table resolves is
  installed with \<^verbatim>\<open>PH_SUCCESS\<close>, its entry keeps the first 255 bytes, and
  \<^verbatim>\<open>ph_is_hooked\<close> on the name is false right away. And a hook on \<^verbatim>\<open>getuid\<close>, whose
  \<^verbatim>\<open>ph_is_hooked\<close> is true, is gone after \<^verbatim>\<open>ph_cleanup\<close> although no
  \<^verbatim>\<open>ph_remove_hook\<close> was called.
\<close>

theorem hook_lost_without_remove:
  "ph_install_hook demo_env (demo_state [] 1) (Some long_name) 7 (Some blank_handle)
     = (PH_SUCCESS, demo_state [demo_entry long_name 16384 7] 2, Some (demo_handle 1 long_name)) \<and>
   \<not> ph_is_hooked (demo_state [demo_entry long_name 16384 7] 2) (Some long_name) \<and>
   ph_install_hook demo_env (demo_state [] 1) (Some ''getuid'') 7 (Some blank_handle)
     = (PH_SUCCESS, demo_state [demo_entry ''getuid'' 4096 7] 2, Some (demo_handle 1 ''getuid'')) \<and>
   ph_is_hooked (demo_state [demo_entry ''getuid'' 4096 7] 2) (Some ''getuid'') \<and>
   \<not> ph_is_hooked (run (demo_state [demo_entry ''getuid'' 4096 7] 2) [(demo_env, Cleanup)])
        (Some ''getuid'')"
proof -
  have a: "ph_install_hook demo_env (demo_state [] 1) (Some ''getuid'') 7 (Some blank_handle)
     = (PH_SUCCESS, demo_state [demo_entry ''getuid'' 4096 7] 2, Some (demo_handle 1 ''getuid''))"
    using demo_install_getuid [of 1] by simp
  have b: "\<not> ph_is_hooked (demo_state [demo_entry long_name 16384 7] 2) (Some long_name)"
    by (simp add: ph_is_hooked_def long_name_not_found)
  have c: "ph_is_hooked (demo_state [demo_entry ''getuid'' 4096 7] 2) (Some ''getuid'')"
    by (simp add: ph_is_hooked_def demo_find_getuid)
  have d: "\<not> ph_is_hooked (run (demo_state [demo_entry ''getuid'' 4096 7] 2)
                [(demo_env, Cleanup)]) (Some ''getuid'')"
    by (simp add: demo_cleanup ph_is_hooked_def ph_find_hook_by_name_def demo_state_sel)
  from a b c d demo_install_long show ?thesis by blast
qed

text \<open>
  Claim C3 at work: the hook on \<^verbatim>\<open>getuid\<close> survives an install on \<^verbatim>\<open>gethostname\<close>
  and the removal of that other hook.
\<close>

theorem install_then_is_hooked_witness:
  "ph_install_hook demo_env (demo_state [] 1) (Some ''getuid'') 7 (Some blank_handle)
     = (PH_SUCCESS, demo_state [demo_entry ''getuid'' 4096 7] 2, Some (demo_handle 1 ''getuid'')) \<and>
   strlen ''getuid'' < 256 \<and>
   hook_kept ''getuid'' (demo_state [demo_entry ''getuid'' 4096 7] 2)
     [(demo_env, Hook_gethostname 9 (Some blank_handle)),
      (demo_env, Remove_hook (Some (demo_handle 2 ''gethostname'')))] \<and>
   ph_is_hooked (demo_state [demo_entry ''getuid'' 4096 7] 2) (Some ''getuid'') \<and>
   ph_is_hooked
     (run (demo_state [demo_entry ''getuid'' 4096 7] 2)
        [(demo_env, Hook_gethostname 9 (Some blank_handle)),
         (demo_env, Remove_hook (Some (demo_handle 2 ''gethostname'')))])
     (Some ''getuid'')"
proof -
  let ?s1 = "demo_state [demo_entry ''getuid'' 4096 7] 2"
  let ?cs = "[(demo_env, Hook_gethostname 9 (Some blank_handle)),
              (demo_env, Remove_hook (Some (demo_handle 2 ''gethostname'')))]"
  have i: "ph_install_hook demo_env (demo_state [] 1) (Some ''getuid'') 7 (Some blank_handle)
             = (PH_SUCCESS, ?s1, Some (demo_handle 1 ''getuid''))"
    using demo_install_getuid [of 1] by simp
  have l: "strlen ''getuid'' < 256" by (simp add: strlen_def cstr_literal NUL_def)
  have k: "hook_kept ''getuid'' ?s1 ?cs"
    by (simp add: strcmp_eq_0_iff demo_handle_sel cstr_name_array cstr_literal NUL_def)
  from install_then_is_hooked [OF i l k] i l k show ?thesis by blast
qed

section \<open>Failing installs\<close>

text \<open>
  Claim C5. When \<^verbatim>\<open>dlsym\<close> does not resolve the name, \<^verbatim>\<open>ph_install_hook\<close> does not
  succeed, and it returns \<^verbatim>\<open>PH_ERROR_FUNCTION_NOT_FOUND\<close> exactly when the call got as
  far as the lookup: replacement and handle are non-null, the registry is initialised
  and holds no entry for the name. Whatever error \<^verbatim>\<open>ph_install_hook\<close> returns, the
  error of a failed allocation included, the state and the caller's handle are the
  ones before the call, and so is the count of active hooks.
\<close>

theorem install_failure_leaves_state:
  assumes "ph_install_hook e s fn r ho = (res, s', ho')"
  shows "(fn = Some name \<and> dlsym e (cstr name) = 0 \<longrightarrow>
            res \<noteq> PH_SUCCESS \<and>
            (res = PH_ERROR_FUNCTION_NOT_FOUND \<longleftrightarrow>
               r \<noteq> 0 \<and> ho \<noteq> None \<and> g_hook_system_initialized s \<and>
               ph_find_hook_by_name s name = None)) \<and>
         (res \<noteq> PH_SUCCESS \<longrightarrow>
            s' = s \<and> ho' = ho \<and> ph_get_active_hook_count s' = ph_get_active_hook_count s)"
  using assms
  by (auto simp: ph_install_hook_def Let_def split: option.splits if_splits)

text \<open>The theorem at work on a symbol that the table does not hold.\<close>

theorem install_failure_leaves_state_witness:
  "ph_install_hook demo_env (demo_state [demo_entry ''getuid'' 4096 7] 2)
     (Some ''nonexistent_symbol'') 7 (Some blank_handle)
     = (PH_ERROR_FUNCTION_NOT_FOUND, demo_state [demo_entry ''getuid'' 4096 7] 2,
        Some blank_handle) \<and>
   dlsym demo_env (cstr ''nonexistent_symbol'') = 0 \<and>
   (7 :: nat) \<noteq> 0 \<and> g_hook_system_initialized (demo_state [demo_entry ''getuid'' 4096 7] 2) \<and>
   ph_find_hook_by_name (demo_state [demo_entry ''getuid'' 4096 7] 2) ''nonexistent_symbol''
     = None \<and>
   ph_get_active_hook_count (demo_state [demo_entry ''getuid'' 4096 7] 2) = 1"
proof -
  let ?s = "demo_state [demo_entry ''getuid'' 4096 7] 2"
  obtain res s' ho' where x: "ph_install_hook demo_env ?s
     (Some ''nonexistent_symbol'') 7 (Some blank_handle) = (res, s', ho')" by (metis prod_cases3)
  have c: "cstr ''nonexistent_symbol'' = ''nonexistent_symbol''"
    by (simp add: cstr_literal NUL_def)
  have d: "dlsym demo_env (cstr ''nonexistent_symbol'') = 0"
    unfolding c by (simp add: demo_env_def long_name_neq[symmetric])
  have f: "ph_find_hook_by_name ?s ''nonexistent_symbol'' = None"
    by (simp add: ph_find_hook_by_name_def demo_state_sel demo_entry_sel strcmp_eq_0_iff
        cstr_name_array cstr_literal NUL_def)
  have n: "ph_get_active_hook_count ?s = 1"
    by (simp add: ph_get_active_hook_count_def demo_state_sel demo_entry_sel)
  from install_failure_leaves_state [OF x, of "''nonexistent_symbol''"] d f
  have "res = PH_ERROR_FUNCTION_NOT_FOUND \<and> s' = ?s \<and> ho' = Some blank_handle"
    by (simp add: demo_state_sel)
  with x d f n show ?thesis by (simp add: demo_state_sel)
qed

text \<open>
  Claim C7, as the code has it. A null name, a null replacement or a null handle gives
  \<^verbatim>\<open>PH_ERROR_INVALID_PARAM\<close> with the state and the handle untouched. An empty name is
  not caught by that check: on an initialised registry without an entry for it, it goes
  to \<^verbatim>\<open>dlsym\<close>, and when \<^verbatim>\<open>dlsym\<close> does not resolve the empty string the call returns
  \<^verbatim>\<open>PH_ERROR_FUNCTION_NOT_FOUND\<close>, again with the state and the handle untouched.
\<close>

theorem install_argument_check:
  "(fn = None \<or> r = 0 \<or> ho = None \<longrightarrow>
      ph_install_hook e s fn r ho = (PH_ERROR_INVALID_PARAM, s, ho)) \<and>
   (cstr name = [] \<and> r \<noteq> 0 \<and> g_hook_system_initialized s \<and>
    ph_find_hook_by_name s name = None \<and> dlsym e [] = 0 \<longrightarrow>
      ph_install_hook e s (Some name) r (Some h) = (PH_ERROR_FUNCTION_NOT_FOUND, s, Some h))"
  by (auto simp: ph_install_hook_def Let_def split: option.splits)

text \<open>The theorem at work: a null name, then the empty name.\<close>

theorem install_argument_check_witness:
  "ph_install_hook demo_env (demo_state [] 1) None 7 (Some blank_handle)
     = (PH_ERROR_INVALID_PARAM, demo_state [] 1, Some blank_handle) \<and>
   cstr [] = [] \<and> (7 :: nat) \<noteq> 0 \<and> g_hook_system_initialized (demo_state [] 1) \<and>
   ph_find_hook_by_name (demo_state [] 1) [] = None \<and> dlsym demo_env [] = 0 \<and>
   ph_install_hook demo_env (demo_state [] 1) (Some []) 7 (Some blank_handle)
     = (PH_ERROR_FUNCTION_NOT_FOUND, demo_state [] 1, Some blank_handle)"
proof -
  have a: "cstr [] = []" by (simp add: cstr_def)
  have i: "g_hook_system_initialized (demo_state [] 1)" by (simp add: demo_state_sel)
  have f: "ph_find_hook_by_name (demo_state [] 1) [] = None"
    by (simp add: ph_find_hook_by_name_def demo_state_sel)
  have d: "dlsym demo_env [] = 0" by (simp add: demo_env_def long_name_neq[symmetric])
  from install_argument_check [of None 7 "Some blank_handle" demo_env "demo_state [] 1" "[]" blank_handle]
    a i f d show ?thesis by simp
qed

text \<open>
  Claim C7 as stated fails: on an initialised registry the empty name is answered with
  \<^verbatim>\<open>PH_ERROR_FUNCTION_NOT_FOUND\<close>, not with \<^verbatim>\<open>PH_ERROR_INVALID_PARAM\<close>.
\<close>

theorem empty_name_not_invalid_param:
  "ph_install_hook demo_env (demo_state [] 1) (Some []) 7 (Some blank_handle)
     = (PH_ERROR_FUNCTION_NOT_FOUND, demo_state [] 1, Some blank_handle)"
  by (simp add: ph_install_hook_def demo_state_sel ph_find_hook_by_name_def cstr_def demo_env_def
      long_name_neq[symmetric])

section \<open>A stale handle\<close>

text \<open>
  The removal loop takes out the first entry whose name compares equal to the one asked
  for, keeps every other entry in its place, and finds nothing when no name compares
  equal.
\<close>

lemma remove_loop_split:
  "list_all (\<lambda>en. strcmp (function_name en) n \<noteq> 0) xs \<Longrightarrow> strcmp (function_name en) n = 0
     \<Longrightarrow> remove_loop (xs @ en # ys) n = Some (xs @ ys)"
  by (induction xs) simp_all

lemma remove_loop_Some_split:
  "remove_loop l n = Some l' \<Longrightarrow>
     \<exists>xs en ys. l = xs @ en # ys \<and> list_all (\<lambda>en. strcmp (function_name en) n \<noteq> 0) xs
        \<and> strcmp (function_name en) n = 0 \<and> l' = xs @ ys"
proof (induction l arbitrary: l')
  case Nil
  then show ?case by simp
next
  case (Cons a l)
  show ?case
  proof (cases "strcmp (function_name a) n = 0")
    case True
    then have "l' = l" using Cons.prems by simp
    then have "a # l = [] @ a # l \<and> list_all (\<lambda>en. strcmp (function_name en) n \<noteq> 0) []
        \<and> strcmp (function_name a) n = 0 \<and> l' = [] @ l" using True by simp
    then show ?thesis by blast
  next
    case False
    then obtain l0 where l0: "remove_loop l n = Some l0" "l' = a # l0"
      using Cons.prems by auto
    from Cons.IH[OF l0(1)] obtain xs en ys where
      "l = xs @ en # ys" "list_all (\<lambda>en. strcmp (function_name en) n \<noteq> 0) xs"
      "strcmp (function_name en) n = 0" "l0 = xs @ ys" by blast
    then have "a # l = (a # xs) @ en # ys \<and> list_all (\<lambda>en. strcmp (function_name en) n \<noteq> 0) (a # xs)
        \<and> strcmp (function_name en) n = 0 \<and> l' = (a # xs) @ ys" using False l0(2) by simp
    then show ?thesis by blast
  qed
qed

text \<open>
  Claim C10. A removal with the handle \<open>h\<close> that returned \<^verbatim>\<open>PH_SUCCESS\<close> took out the
  first entry whose name compares equal to the name in \<open>h\<close> and kept every other entry;
  the call has no handle among its results, so the caller's struct is as it was. Let a
  later install put a new entry at the head of the list and fill a handle \<open>h2\<close> whose
  name compares equal to the name in \<open>h\<close>, with the id the counter had. In any later
  state of the initialised registry where that new entry stands behind entries \<open>xs\<close> with
  other names and before entries \<open>ys\<close>, a removal with the old \<open>h\<close> gives the same
  answer whatever id \<open>h\<close> carries, returns \<^verbatim>\<open>PH_SUCCESS\<close> again, and takes out the new
  entry and nothing else: the list is \<open>xs @ ys\<close>.
\<close>

theorem stale_handle_removes_new_entry:
  assumes "ph_remove_hook s (Some h) = (PH_SUCCESS, s1)"
    and "ph_install_hook e s1 (Some n) r (Some h0) = (PH_SUCCESS, s2, Some h2)"
    and "strcmp (handle_function_name h2) (handle_function_name h) = 0"
    and "g_hook_system_initialized s3"
    and "g_hook_list s3 = xs @ hd (g_hook_list s2) # ys"
    and "list_all (\<lambda>en. strcmp (function_name en) (handle_function_name h) \<noteq> 0) xs"
  shows "(\<exists>xs0 en0 ys0. g_hook_list s = xs0 @ en0 # ys0 \<and>
            list_all (\<lambda>en. strcmp (function_name en) (handle_function_name h) \<noteq> 0) xs0 \<and>
            strcmp (function_name en0) (handle_function_name h) = 0 \<and>
            s1 = s\<lparr> g_hook_list := xs0 @ ys0 \<rparr>) \<and>
         hd (g_hook_list s2) = \<lparr> function_name = name_array n,
                                 original_function = dlsym e (cstr n),
                                 replacement_function = r, is_active = True \<rparr> \<and>
         tl (g_hook_list s2) = g_hook_list s1 \<and>
         handle_id h2 = g_next_hook_id s1 \<and>
         ph_remove_hook s3 (Some (h\<lparr> handle_id := i \<rparr>)) = ph_remove_hook s3 (Some h) \<and>
         ph_remove_hook s3 (Some h) = (PH_SUCCESS, s3\<lparr> g_hook_list := xs @ ys \<rparr>)"
proof -
  from ph_remove_hook_cases[OF assms(1)] obtain l where v: "is_valid h" and
    l: "remove_loop (g_hook_list s) (handle_function_name h) = Some l" and
    s1: "s1 = s\<lparr> g_hook_list := l \<rparr>" by auto
  from remove_loop_Some_split[OF l] s1 have first:
    "\<exists>xs0 en0 ys0. g_hook_list s = xs0 @ en0 # ys0 \<and>
        list_all (\<lambda>en. strcmp (function_name en) (handle_function_name h) \<noteq> 0) xs0 \<and>
        strcmp (function_name en0) (handle_function_name h) = 0 \<and>
        s1 = s\<lparr> g_hook_list := xs0 @ ys0 \<rparr>" by blast
  from ph_install_hook_cases[OF assms(2)] have
    s2: "s2 = s1\<lparr> g_hook_list := \<lparr> function_name = name_array n,
                                         original_function = dlsym e (cstr n),
                                         replacement_function = r, is_active = True \<rparr>
                                       # g_hook_list s1,
                        g_next_hook_id := g_next_hook_id s1 + 1 \<rparr>" and
    h2: "h2 = h0\<lparr> handle_id := g_next_hook_id s1,
                     handle_function_name := (strncpy (handle_function_name h0) n 255)[255 := NUL],
                     is_valid := True \<rparr>"
    by auto
  have "cstr (handle_function_name h2) = take 255 (cstr n)"
    using h2 by (simp add: cstr_field)
  then have m: "strcmp (function_name (hd (g_hook_list s2))) (handle_function_name h) = 0"
    using assms(3) by (simp add: s2 strcmp_eq_0_iff cstr_name_array)
  have rl: "remove_loop (g_hook_list s3) (handle_function_name h) = Some (xs @ ys)"
    unfolding assms(5) using assms(6) m by (rule remove_loop_split)
  have a: "ph_remove_hook s3 (Some (h\<lparr> handle_id := i \<rparr>)) = ph_remove_hook s3 (Some h)"
    by (simp add: ph_remove_hook_def)
  have b: "ph_remove_hook s3 (Some h) = (PH_SUCCESS, s3\<lparr> g_hook_list := xs @ ys \<rparr>)"
    using v assms(4) rl by (simp add: ph_remove_hook_def)
  show ?thesis using first a b s2 h2 by simp
qed

lemma demo_install:
  assumes "NUL \<notin> set n" "length n < 256" "dlsym demo_env n = a" "a \<noteq> 0"
    "find_loop l n = None"
  shows "ph_install_hook demo_env (demo_state l i) (Some n) 7 (Some blank_handle) =
     (PH_SUCCESS, demo_state (demo_entry n a 7 # l) (i + 1), Some (demo_handle i n))"
proof -
  have c: "cstr n = n" using assms(1) by (rule cstr_literal)
  have m: "malloc_ok demo_env" by (simp add: demo_env_def)
  have "ph_install_hook demo_env (demo_state l i) (Some n) 7 (Some blank_handle) =
          (PH_SUCCESS,
            (demo_state l i)\<lparr> g_hook_list := \<lparr> function_name = name_array n,
                                original_function = dlsym demo_env (cstr n),
                                replacement_function = 7, is_active = True \<rparr>
                              # g_hook_list (demo_state l i),
               g_next_hook_id := g_next_hook_id (demo_state l i) + 1 \<rparr>,
            Some (blank_handle\<lparr> handle_id := g_next_hook_id (demo_state l i),
                     handle_function_name :=
                       (strncpy (handle_function_name blank_handle) n 255)[255 := NUL],
                     is_valid := True \<rparr>))"
    by (rule ph_install_hook_success)
       (simp_all add: demo_state_sel ph_find_hook_by_name_def assms c m)
  then show ?thesis
    by (simp add: c assms(3) demo_state_def demo_entry_def demo_handle_def blank_handle_def
        name_array_def)
qed

lemma demo_names_differ:
  "strcmp (name_array ''uname'') (name_array ''getuid'') \<noteq> 0"
  "strcmp (name_array ''gethostname'') (name_array ''getuid'') \<noteq> 0"
  "strcmp (name_array ''getuid'') (name_array ''getuid'') = 0"
  "strcmp (name_array ''gethostname'') ''getuid'' \<noteq> 0"
  "strcmp (name_array ''gethostname'') ''uname'' \<noteq> 0"
  "strcmp (name_array ''getuid'') ''uname'' \<noteq> 0"
  by (simp_all add: strcmp_eq_0_iff cstr_name_array cstr_literal NUL_def)

text \<open>
  The theorem at work. With hooks on \<^verbatim>\<open>getuid\<close> (handle id 2) and \<^verbatim>\<open>gethostname\<close>, the
  hook on \<^verbatim>\<open>getuid\<close> is removed and installed again, which hands out a different handle
  with id 3; then \<^verbatim>\<open>uname\<close> is hooked. The handle with id 2 removes the new entry for
  \<^verbatim>\<open>getuid\<close> from between the other two, which stay.
\<close>

theorem stale_handle_removes_new_entry_witness:
  "ph_remove_hook
     (demo_state [demo_entry ''getuid'' 4096 7, demo_entry ''gethostname'' 8192 7] 3)
     (Some (demo_handle 2 ''getuid''))
     = (PH_SUCCESS, demo_state [demo_entry ''gethostname'' 8192 7] 3) \<and>
   ph_install_hook demo_env (demo_state [demo_entry ''gethostname'' 8192 7] 3)
     (Some ''getuid'') 7 (Some blank_handle)
     = (PH_SUCCESS,
        demo_state [demo_entry ''getuid'' 4096 7, demo_entry ''gethostname'' 8192 7] 4,
        Some (demo_handle 3 ''getuid'')) \<and>
   demo_handle 3 ''getuid'' \<noteq> demo_handle 2 ''getuid'' \<and>
   ph_install_hook demo_env
     (demo_state [demo_entry ''getuid'' 4096 7, demo_entry ''gethostname'' 8192 7] 4)
     (Some ''uname'') 7 (Some blank_handle)
     = (PH_SUCCESS,
        demo_state [demo_entry ''uname'' 12288 7, demo_entry ''getuid'' 4096 7,
                    demo_entry ''gethostname'' 8192 7] 5,
        Some (demo_handle 4 ''uname'')) \<and>
   ph_remove_hook
     (demo_state [demo_entry ''uname'' 12288 7, demo_entry ''getuid'' 4096 7,
                  demo_entry ''gethostname'' 8192 7] 5)
     (Some (demo_handle 2 ''getuid''))
     = (PH_SUCCESS,
        demo_state [demo_entry ''uname'' 12288 7, demo_entry ''gethostname'' 8192 7] 5)"
proof -
  let ?u = "demo_entry ''uname'' 12288 7"
  let ?g = "demo_entry ''getuid'' 4096 7"
  let ?n = "demo_entry ''gethostname'' 8192 7"
  let ?h = "demo_handle 2 ''getuid''"
  have rm: "ph_remove_hook (demo_state [?g, ?n] 3) (Some ?h) = (PH_SUCCESS, demo_state [?n] 3)"
    by (simp add: ph_remove_hook_def demo_state_def demo_handle_sel demo_entry_sel
        demo_names_differ)
  have ins: "ph_install_hook demo_env (demo_state [?n] 3) (Some ''getuid'') 7 (Some blank_handle)
               = (PH_SUCCESS, demo_state [?g, ?n] 4, Some (demo_handle 3 ''getuid''))"
    using demo_install [of "''getuid''" 4096 "[?n]" 3]
    by (simp add: NUL_def demo_env_def demo_entry_sel demo_names_differ)
  have same: "strcmp (handle_function_name (demo_handle 3 ''getuid''))
                     (handle_function_name ?h) = 0"
    by (simp add: demo_handle_sel demo_names_differ)
  have diff: "demo_handle 3 ''getuid'' \<noteq> ?h" by (simp add: demo_handle_def)
  have ins2: "ph_install_hook demo_env (demo_state [?g, ?n] 4) (Some ''uname'') 7
                (Some blank_handle)
               = (PH_SUCCESS, demo_state [?u, ?g, ?n] 5, Some (demo_handle 4 ''uname''))"
    using demo_install [of "''uname''" 12288 "[?g, ?n]" 4]
    by (simp add: NUL_def demo_env_def demo_entry_sel demo_names_differ)
  have i3: "g_hook_system_initialized (demo_state [?u, ?g, ?n] 5)" by (simp add: demo_state_sel)
  have l3: "g_hook_list (demo_state [?u, ?g, ?n] 5)
              = [?u] @ hd (g_hook_list (demo_state [?g, ?n] 4)) # [?n]"
    by (simp add: demo_state_sel)
  have o3: "list_all (\<lambda>en. strcmp (function_name en) (handle_function_name ?h) \<noteq> 0) [?u]"
    by (simp add: demo_handle_sel demo_entry_sel demo_names_differ)
  have e: "(demo_state [?u, ?g, ?n] 5)\<lparr> g_hook_list := [?u] @ [?n] \<rparr> = demo_state [?u, ?n] 5"
    by (simp add: demo_state_def)
  from stale_handle_removes_new_entry [OF rm ins same i3 l3 o3]
  have "ph_remove_hook (demo_state [?u, ?g, ?n] 5) (Some ?h)
          = (PH_SUCCESS, demo_state [?u, ?n] 5)"
    unfolding e by blast
  with rm ins diff ins2 show ?thesis by blast
qed

section \<open>Locking around the configuration writes\<close>

text \<open>
  Claim C9, the part that a sequential trace shows. With non-null arguments, the calls
  \<^verbatim>\<open>ph_install_getuid_hook\<close> and \<^verbatim>\<open>ph_install_getgid_hook\<close> assign to
  \<^verbatim>\<open>g_config_data\<close> with the mutex held, whereas \<^verbatim>\<open>ph_install_gethostname_hook\<close> and
  \<^verbatim>\<open>ph_install_uname_hook\<close> assign to it while the mutex is not held.
\<close>

theorem hostname_and_uname_config_written_unlocked:
  "writes_locked False (snd (snd (snd (ph_install_getuid_hook e s (Some c) (Some h))))) \<and>
   writes_locked False (snd (snd (snd (ph_install_getgid_hook e s (Some c) (Some h))))) \<and>
   \<not> writes_locked False (snd (snd (snd (ph_install_gethostname_hook e s (Some c) (Some h))))) \<and>
   \<not> writes_locked False (snd (snd (snd (ph_install_uname_hook e s (Some c) (Some h)))))"
  by (simp add: ph_install_getuid_hook_def ph_install_getgid_hook_def
      ph_install_gethostname_hook_def ph_install_uname_hook_def Let_def install_traced_def
      pthread_mutex_lock_def pthread_mutex_unlock_def config_assign_def ph_install_hook_sync_def
      hooked_getuid_addr_def hooked_getgid_addr_def hooked_gethostname_addr_def
      hooked_uname_addr_def split: prod.splits)

section \<open>The hostname handler\<close>

lemma store_outside: "i < off \<or> off + length bs \<le> i \<Longrightarrow> store m off bs i = m i"
  by (auto simp: store_def)

lemma store_append: "store (store m off a) (off + length a) b = store m off (a @ b)"
  by (rule ext) (auto simp: store_def nth_append)

lemma store_Nil: "store m off [] = m"
  by (rule ext) (auto simp: store_def)

text \<open>
  Claim C4. \<^verbatim>\<open>hooked_gethostname\<close> returns 0 exactly when the capacity \<open>len\<close> is
  greater than the length of the configured hostname. It then has written, into the
  first \<open>len\<close> bytes of the buffer, the hostname followed by NUL up to the end of the
  capacity, and no byte at offset \<open>len\<close> or beyond has changed. Otherwise it returns -1
  and the buffer is the one it was given.
\<close>

theorem hooked_gethostname_fits:
  assumes "hooked_gethostname s name len = (rv, name')"
  shows "(rv = 0 \<longleftrightarrow> strlen (hostname (g_config_data s)) < len) \<and>
         (rv = 0 \<longrightarrow>
            (\<forall>i < len. name' i =
               (cstr (hostname (g_config_data s))
                  @ replicate (len - strlen (hostname (g_config_data s))) NUL) ! i) \<and>
            (\<forall>i \<ge> len. name' i = name i)) \<and>
         (rv \<noteq> 0 \<longrightarrow> rv = - 1 \<and> name' = name)"
proof (cases "len \<le> strlen (hostname (g_config_data s))")
  case True
  then show ?thesis using assms by (auto simp: hooked_gethostname_def Let_def)
next
  case False
  let ?h = "cstr (hostname (g_config_data s))"
  have n: "length ?h < len" using False by (simp add: strlen_def)
  have t: "take (len - 1) (?h @ replicate (len - 1) NUL) = ?h @ replicate (len - 1 - length ?h) NUL"
    using n by simp
  have "strncpy_mem name 0 (hostname (g_config_data s)) (len - 1)
          = store name 0 (?h @ replicate (len - 1 - length ?h) NUL)"
    by (simp only: strncpy_mem_def t)
  moreover have "hooked_gethostname s name len
          = (0, (strncpy_mem name 0 (hostname (g_config_data s)) (len - 1))(len - 1 := NUL))"
    using False by (simp add: hooked_gethostname_def Let_def)
  ultimately have r: "rv = 0" and
    m: "name' = (store name 0 (?h @ replicate (len - 1 - length ?h) NUL))(len - 1 := NUL)"
    using assms by simp_all
  have "name' i = (?h @ replicate (len - length ?h) NUL) ! i" if "i < len" for i
  proof (cases "i = len - 1")
    case True
    moreover have "\<not> len - 1 < length ?h" using n by simp
    ultimately show ?thesis using n that by (simp add: m nth_append)
  next
    case False
    then have "i < len - 1" using that by simp
    then show ?thesis using n by (simp add: m store_def nth_append)
  qed
  moreover have "name' i = name i" if "len \<le> i" for i
  proof -
    have "i \<noteq> len - 1" "\<not> i < len - 1" using that n by simp_all
    then show ?thesis using n by (simp add: m store_def)
  qed
  ultimately show ?thesis using r n by (simp add: strlen_def)
qed

lemma demo_host_strlen: "strlen (hostname (g_config_data demo_host_state)) = 3"
  by (simp add: demo_host_state_def strlen_def cstr_name_array cstr_literal NUL_def)

lemma demo_host_cstr: "cstr (hostname (g_config_data demo_host_state)) = ''abc''"
  by (simp add: demo_host_state_def cstr_name_array cstr_literal NUL_def)

text \<open>
  The theorem at work on the configured hostname \<^verbatim>\<open>abc\<close>: capacity 4 gives the four
  bytes of the string and its terminator and leaves the fifth byte alone; capacity 3
  fails and writes nothing.
\<close>

theorem hooked_gethostname_fits_witness:
  "fst (hooked_gethostname demo_host_state blank_mem 4) = 0 \<and>
   map (snd (hooked_gethostname demo_host_state blank_mem 4)) [0, 1, 2, 3, 4]
     = [CHR ''a'', CHR ''b'', CHR ''c'', NUL, CHR ''x''] \<and>
   hooked_gethostname demo_host_state blank_mem 3 = (- 1, blank_mem)"
proof -
  obtain rv m where x: "hooked_gethostname demo_host_state blank_mem 4 = (rv, m)"
    by (metis prod.exhaust)
  obtain rv3 m3 where y: "hooked_gethostname demo_host_state blank_mem 3 = (rv3, m3)"
    by (metis prod.exhaust)
  from hooked_gethostname_fits [OF x] have a: "rv = 0"
    and b: "\<forall>i<4. m i = (''abc'' @ replicate (4 - 3) NUL) ! i" and c: "\<forall>i\<ge>4. m i = blank_mem i"
    by (simp_all add: demo_host_strlen demo_host_cstr)
  from b have "m 0 = CHR ''a''" "m 1 = CHR ''b''" "m 2 = CHR ''c''" "m 3 = NUL"
    by (simp_all add: nth_Cons' nth_append)
  moreover from c have "m 4 = CHR ''x''" by (simp add: blank_mem_def)
  moreover from hooked_gethostname_fits [OF y] have "rv3 = - 1" "m3 = blank_mem"
    by (simp_all add: demo_host_strlen)
  ultimately show ?thesis using a x y by simp
qed

text \<open>That configuration is what \<^verbatim>\<open>ph_install_gethostname_hook\<close> stores for \<^verbatim>\<open>abc\<close>.\<close>

lemma demo_configure_hostname:
  "fst (snd (ph_install_gethostname_hook demo_env (demo_state [] 1)
               (Some (zero_config\<lparr> hostname := ''abc'' \<rparr>)) (Some blank_handle)))
     = demo_host_state\<lparr> g_hook_list := [demo_entry ''gethostname'' 8192 hooked_gethostname_addr],
                        g_next_hook_id := 2 \<rparr>"
  by (simp add: ph_install_gethostname_hook_def Let_def install_traced_def config_assign_def
      ph_install_hook_def hooked_gethostname_addr_def demo_state_def ph_find_hook_by_name_def
      demo_env_def cstr_literal NUL_def demo_host_state_def demo_entry_def name_array_def
      zero_config_def split: prod.splits)

section \<open>Listing the active hooks\<close>

lemma packed_simps [simp]:
  "packed [] = []" "packed (n # ns) = n @ NUL # packed ns"
  by (simp_all add: packed_def)

lemma packed_first_pos: "ns \<noteq> [] \<Longrightarrow> 0 < length (packed (take (Suc 0) ns))"
  by (cases ns) simp_all

lemma active_hooks_loop_spec:
  assumes "list_all (\<lambda>en. strlen (function_name en) \<le> 255) l"
    and "buffer_size \<le> 2 ^ 64 - 256"
    and "active_hooks_loop l buffer_size buf offset count = (count', buf')"
  shows "\<exists>k \<le> length (entry_names (filter is_active l)).
           count' = count + of_nat k \<and>
           buf' = store buf offset (packed (take k (entry_names (filter is_active l)))) \<and>
           (0 < k \<longrightarrow>
              offset + length (packed (take k (entry_names (filter is_active l)))) < buffer_size) \<and>
           (k < length (entry_names (filter is_active l)) \<longrightarrow>
              buffer_size \<le> offset
                 + length (packed (take (Suc k) (entry_names (filter is_active l)))))"
  using assms
proof (induction l arbitrary: buf offset count)
  case Nil
  then show ?case by (simp add: entry_names_def store_Nil)
next
  case (Cons en l)
  let ?ns = "entry_names (filter is_active l)"
  let ?n = "cstr (function_name en)"
  have la: "list_all (\<lambda>en. strlen (function_name en) \<le> 255) l" and
    ln: "length ?n \<le> 255" using Cons.prems(1) by (simp_all add: strlen_def)
  show ?case
  proof (cases "offset < buffer_size - 1")
    case False
    then have "count' = count" "buf' = buf" using Cons.prems(3) by simp_all
    moreover have "buffer_size \<le> offset + 1" using False by simp
    then have "0 < length (entry_names (filter is_active (en # l))) \<longrightarrow>
        buffer_size \<le> offset
           + length (packed (take (Suc 0) (entry_names (filter is_active (en # l)))))"
      by (cases "entry_names (filter is_active (en # l))") simp_all
    ultimately show ?thesis
      by (intro exI[of _ 0]) (simp add: store_Nil del: filter.simps)
  next
    case guard: True
    show ?thesis
    proof (cases "is_active en")
      case False
      then have "active_hooks_loop l buffer_size buf offset count = (count', buf')"
        using Cons.prems(3) guard by simp
      from Cons.IH[OF la Cons.prems(2) this] show ?thesis using False by simp
    next
      case act: True
      have nm: "(offset + length ?n + 1) mod 2 ^ 64 = offset + length ?n + 1"
        using guard ln Cons.prems(2) by simp
      have nm': "(offset + (length ?n + 1)) mod 2 ^ 64 = offset + length ?n + 1"
        using nm by (simp add: add.assoc)
      have names: "entry_names (filter is_active (en # l)) = ?n # ?ns"
        using act by (simp add: entry_names_def)
      show ?thesis
      proof (cases "offset + length ?n + 1 < buffer_size")
        case False
        then have "count' = count" "buf' = buf"
          using Cons.prems(3) guard act nm by (simp_all add: strlen_def Let_def)
        then show ?thesis using False unfolding names
          by (intro exI[of _ 0]) (simp add: store_Nil)
      next
        case fits: True
        have rec: "active_hooks_loop l buffer_size (store buf offset (?n @ [NUL]))
                     (offset + length ?n + 1) (count + 1) = (count', buf')"
          using Cons.prems(3) guard act nm nm' fits
          by (simp add: strlen_def Let_def strcpy_mem_def)
        from Cons.IH[OF la Cons.prems(2) rec] obtain k where
          k: "k \<le> length ?ns" and
          c: "count' = count + 1 + of_nat k" and
          b: "buf' = store (store buf offset (?n @ [NUL])) (offset + length ?n + 1)
                       (packed (take k ?ns))" and
          p: "0 < k \<longrightarrow> offset + length ?n + 1 + length (packed (take k ?ns)) < buffer_size" and
          q: "k < length ?ns \<longrightarrow>
                buffer_size \<le> offset + length ?n + 1 + length (packed (take (Suc k) ?ns))"
          by auto
        have b': "buf' = store buf offset (packed (take (Suc k) (?n # ?ns)))"
          using b store_append[of buf offset "?n @ [NUL]" "packed (take k ?ns)"] by simp
        have "offset + length (packed (take (Suc k) (?n # ?ns))) < buffer_size"
          using p fits by (cases "k = 0") simp_all
        moreover have "Suc k < length (?n # ?ns) \<longrightarrow>
            buffer_size \<le> offset + length (packed (take (Suc (Suc k)) (?n # ?ns)))"
          using q by (simp add: add.assoc)
        ultimately show ?thesis using k c b' unfolding names
          by (intro exI[of _ "Suc k"]) simp
      qed
    qed
  qed
qed

lemma length_active_names: "length (active_names s) \<le> length (g_hook_list s)"
  by (simp add: active_names_def entry_names_def)

text \<open>
  What the listing does in general. On a registry whose stored names are terminated,
  for a capacity that leaves the top 256 values of \<^verbatim>\<open>size_t\<close> unused,
  \<^verbatim>\<open>ph_get_active_hooks\<close> writes the first \<open>k\<close> active names one after the other from
  offset 0, each with its NUL, and nothing else; it returns \<open>k\<close> (as a number when the
  list has fewer than \<open>2 ^ 32\<close> entries). The names written end strictly before the
  capacity; the next name, if there is one, is left out because with its NUL it would
  reach the capacity or pass it. No byte at offset \<open>buffer_size - 1\<close> or beyond is
  changed.
\<close>

theorem active_hooks_listing:
  assumes "ph_get_active_hooks s (Some buf) buffer_size = (count, out)"
    and "names_terminated s" and "buffer_size \<le> 2 ^ 64 - 256"
  shows "\<exists>k \<le> length (active_names s).
           count = of_nat k \<and>
           (length (g_hook_list s) < 2 ^ 32 \<longrightarrow> unat count = k) \<and>
           out = Some (store buf 0 (packed (take k (active_names s)))) \<and>
           (0 < k \<longrightarrow> length (packed (take k (active_names s))) < buffer_size) \<and>
           (k < length (active_names s) \<longrightarrow>
              buffer_size \<le> length (packed (take (Suc k) (active_names s)))) \<and>
           (\<forall>i. buffer_size \<le> Suc i \<longrightarrow>
                store buf 0 (packed (take k (active_names s))) i = buf i)"
proof (cases "buffer_size = 0")
  case True
  then have "count = 0" "out = Some buf" using assms(1) by (simp_all add: ph_get_active_hooks_def)
  then show ?thesis using True by (intro exI[of _ 0]) (simp add: store_Nil)
next
  case False
  obtain c b where l: "active_hooks_loop (g_hook_list s) buffer_size buf 0 0 = (c, b)"
    by (metis prod.exhaust)
  then have cb: "count = c" "out = Some b"
    using assms(1) False by (simp_all add: ph_get_active_hooks_def)
  from active_hooks_loop_spec[OF assms(2)[unfolded names_terminated_def] assms(3) l]
  obtain k where k: "k \<le> length (active_names s)" and
    c: "c = of_nat k" and
    b: "b = store buf 0 (packed (take k (active_names s)))" and
    p: "0 < k \<longrightarrow> length (packed (take k (active_names s))) < buffer_size" and
    q: "k < length (active_names s) \<longrightarrow>
          buffer_size \<le> length (packed (take (Suc k) (active_names s)))"
    unfolding active_names_def by auto
  have u: "unat count = k" if "length (g_hook_list s) < 2 ^ 32"
  proof -
    have "k < 2 ^ 32" using k length_active_names[of s] that by simp
    then show ?thesis using cb c by (simp add: unat_of_nat)
  qed
  have w: "store buf 0 (packed (take k (active_names s))) i = buf i" if "buffer_size \<le> Suc i" for i
  proof (cases "k = 0")
    case True
    then show ?thesis by (simp add: store_Nil)
  next
    case False
    then have "length (packed (take k (active_names s))) \<le> i" using p that by simp
    then show ?thesis by (simp add: store_outside)
  qed
  show ?thesis using k cb c b p q u w by (intro exI[of _ k]) simp
qed

lemma strlen_demo_names:
  "strlen (name_array ''uname'') = 5" "strlen (name_array ''getuid'') = 6"
  by (simp_all add: strlen_def cstr_name_array cstr_literal NUL_def)

lemma cstr_demo_names:
  "cstr (name_array ''uname'') = ''uname''" "cstr (name_array ''getuid'') = ''getuid''"
  by (simp_all add: cstr_name_array cstr_literal NUL_def)

text \<open>
  The listing with the hooks \<^verbatim>\<open>uname\<close> and \<^verbatim>\<open>getuid\<close> and a capacity of 10: the
  first name is written and counted, the second would end at offset 13 and is left out.
\<close>

theorem active_hooks_listing_witness:
  "ph_get_active_hooks demo_two (Some blank_mem) 10
     = (1, Some (store blank_mem 0 (''uname'' @ [NUL]))) \<and>
   names_terminated demo_two \<and> (10 :: nat) \<le> 2 ^ 64 - 256 \<and>
   active_names demo_two = [''uname'', ''getuid''] \<and>
   length (packed (take 1 (active_names demo_two))) = 6 \<and>
   length (packed (take 2 (active_names demo_two))) = 13 \<and>
   store blank_mem 0 (''uname'' @ [NUL]) 9 = blank_mem 9"
proof -
  have g: "ph_get_active_hooks demo_two (Some blank_mem) 10
     = (1, Some (store blank_mem 0 (''uname'' @ [NUL])))"
    by (simp add: ph_get_active_hooks_def demo_two_def demo_state_sel
      demo_entry_sel strlen_demo_names strcpy_mem_def cstr_demo_names)
  have t: "names_terminated demo_two"
    by (simp add: names_terminated_def demo_two_def demo_state_sel demo_entry_sel strlen_demo_names)
  have z: "(10 :: nat) \<le> 2 ^ 64 - 256" by simp
  have a: "active_names demo_two = [''uname'', ''getuid'']"
    by (simp add: active_names_def demo_two_def demo_state_sel demo_entry_sel entry_names_def
        cstr_demo_names)
  from active_hooks_listing [OF g t z] obtain k where
    "(1 :: 32 word) = of_nat k" and "length (g_hook_list demo_two) < 2 ^ 32 \<longrightarrow> unat (1 :: 32 word) = k"
    and w: "\<forall>i. 10 \<le> Suc i \<longrightarrow> store blank_mem 0 (packed (take k (active_names demo_two))) i = blank_mem i"
    by blast
  then have "k = 1" by (simp add: demo_two_def demo_state_sel)
  with w have "store blank_mem 0 (''uname'' @ [NUL]) 9 = blank_mem 9"
    by (simp add: a)
  with g t z a show ?thesis by simp
qed

text \<open>
  Claim C8 says that a name is written whenever it fits, with its terminator, in what
  is left of the buffer. The code tests the fit with a strict comparison: for the one
  active hook \<^verbatim>\<open>getuid\<close>, 7 bytes with its NUL, a capacity of 7 gives no byte written
  and the result 0, and only a capacity of 8 gives the name.
\<close>

theorem exact_fit_not_listed:
  "strlen (function_name (demo_entry ''getuid'' 4096 7)) + 1 = 7 \<and>
   ph_get_active_hook_count (demo_state [demo_entry ''getuid'' 4096 7] 2) = 1 \<and>
   ph_get_active_hooks (demo_state [demo_entry ''getuid'' 4096 7] 2) (Some blank_mem) 7
     = (0, Some blank_mem) \<and>
   ph_get_active_hooks (demo_state [demo_entry ''getuid'' 4096 7] 2) (Some blank_mem) 8
     = (1, Some (store blank_mem 0 (''getuid'' @ [NUL])))"
  by (simp add: ph_get_active_hooks_def ph_get_active_hook_count_def demo_state_sel
      demo_entry_sel strlen_demo_names strcpy_mem_def cstr_demo_names)

section \<open>Installing the same name twice\<close>

text \<open>
  For a name of fewer than 256 bytes the second install is refused: after a successful
  install the entry found for the name holds the original and the replacement of that
  install, and an install of the same name, right away or after any sequence of calls
  that keeps the hook, returns \<^verbatim>\<open>PH_ERROR_ALREADY_HOOKED\<close> and changes nothing.
\<close>

lemma short_name_second_install:
  assumes "ph_install_hook e s (Some name) r h = (PH_SUCCESS, s1, h1)"
    and "strlen name < 256" and "r2 \<noteq> 0" and "hook_kept name s1 cs"
  shows "ph_find_hook_by_name s1 name =
           Some \<lparr> function_name = name_array name, original_function = dlsym e (cstr name),
                  replacement_function = r, is_active = True \<rparr> \<and>
         ph_install_hook e' s1 (Some name) r2 (Some h') = (PH_ERROR_ALREADY_HOOKED, s1, Some h') \<and>
         ph_install_hook e' (run s1 cs) (Some name) r2 (Some h')
           = (PH_ERROR_ALREADY_HOOKED, run s1 cs, Some h')"
proof -
  from ph_install_hook_cases[OF assms(1)] have i: "g_hook_system_initialized s" and
    s1: "g_hook_list s1 = \<lparr> function_name = name_array name,
                             original_function = dlsym e (cstr name),
                             replacement_function = r, is_active = True \<rparr> # g_hook_list s"
     "g_hook_system_initialized s1 = g_hook_system_initialized s"
    by auto
  have "cstr (name_array name) = cstr name"
    using assms(2) by (simp add: cstr_name_array strlen_def)
  then have f: "find_loop (g_hook_list s1) name =
           Some \<lparr> function_name = name_array name, original_function = dlsym e (cstr name),
                  replacement_function = r, is_active = True \<rparr>"
    using s1 by (simp add: strcmp_eq_0_iff)
  have d: "empty_when_down s1" using i s1 by (simp add: empty_when_down_def)
  have k: "find_loop (g_hook_list (run s1 cs)) name \<noteq> None"
    using d _ assms(4) by (rule run_keeps_hook) (simp add: f)
  then have "g_hook_list (run s1 cs) \<noteq> []" by auto
  then have i': "g_hook_system_initialized (run s1 cs)"
    using run_empty_when_down[OF d, of cs] by (simp add: empty_when_down_def)
  show ?thesis using f k i i' s1(2) assms(3)
    by (simp add: ph_install_hook_def ph_find_hook_by_name_def)
qed

lemma demo_find_long:
  "ph_find_hook_by_name (demo_state (demo_entry long_name a r # l) i)
     (handle_function_name (demo_handle j long_name)) = Some (demo_entry long_name a r)"
  by (simp add: ph_find_hook_by_name_def demo_state_sel demo_handle_sel demo_entry_sel
      strcmp_eq_0_iff)

text \<open>
  Claim C2 at a name of 256 bytes that the symbol table resolves. From the load state,
  \<^verbatim>\<open>ph_initialize\<close> and a first install with the replacement 7 succeed, and the entry
  found under the name the handle carries has the replacement 7. The second install of
  the same name with the replacement 9 is not refused: it returns \<^verbatim>\<open>PH_SUCCESS\<close> and
  puts a second entry in front, and the entry found under the name of the first handle
  now has the replacement 9.
\<close>

theorem long_name_hooked_over:
  "length long_name = 256 \<and>
   dlsym demo_env (cstr long_name) \<noteq> 0 \<and>
   ph_initialize demo_env initial_state = (PH_SUCCESS, demo_state [] 1) \<and>
   ph_install_hook demo_env (demo_state [] 1) (Some long_name) 7 (Some blank_handle)
     = (PH_SUCCESS, demo_state [demo_entry long_name 16384 7] 2,
        Some (demo_handle 1 long_name)) \<and>
   ph_find_hook_by_name (demo_state [demo_entry long_name 16384 7] 2)
      (handle_function_name (demo_handle 1 long_name)) = Some (demo_entry long_name 16384 7) \<and>
   ph_install_hook demo_env (demo_state [demo_entry long_name 16384 7] 2) (Some long_name) 9
      (Some blank_handle)
     = (PH_SUCCESS,
        demo_state [demo_entry long_name 16384 9, demo_entry long_name 16384 7] 3,
        Some (demo_handle 2 long_name)) \<and>
   ph_find_hook_by_name
      (demo_state [demo_entry long_name 16384 9, demo_entry long_name 16384 7] 3)
      (handle_function_name (demo_handle 1 long_name)) = Some (demo_entry long_name 16384 9) \<and>
   replacement_function (demo_entry long_name 16384 9) = 9 \<and>
   ph_get_active_hook_count
      (demo_state [demo_entry long_name 16384 9, demo_entry long_name 16384 7] 3) = 2"
proof -
  have d: "dlsym demo_env (cstr long_name) \<noteq> 0"
    by (simp add: cstr_long_name demo_env_def long_name_neq)
  have c: "ph_get_active_hook_count
      (demo_state [demo_entry long_name 16384 9, demo_entry long_name 16384 7] 3) = 2"
    by (simp add: ph_get_active_hook_count_def demo_state_sel demo_entry_sel)
  from d c long_name_length demo_initialize demo_install_long demo_install_long_again
    demo_find_long [of 16384 7 "[]" 2 1]
    demo_find_long [of 16384 9 "[demo_entry long_name 16384 7]" 3 1]
    demo_entry_sel(3) [of long_name 16384 9]
  show ?thesis by blast
qed

end
